theory Spec2Isabelle
  imports Complex_Main "HOL-Library.Sublist"
begin

section \<open>Python strings\<close>

text \<open>
  A Python \<open>str\<close> is modelled as a \<open>string\<close>: one \<open>char\<close> per character, so that
  \<open>length\<close> is Python's \<open>len\<close>, \<open>take n\<close> is the slice \<open>s[:n]\<close> and \<open>sublist a b\<close> is
  \<open>a in b\<close>.  The empty string is the only falsy one.
\<close>

definition newline :: string where
  "newline = [CHR 0x0A]"

text \<open>\<open>sep.join(parts)\<close>.\<close>

fun join :: "string \<Rightarrow> string list \<Rightarrow> string" where
  "join sep [] = []"
| "join sep [p] = p"
| "join sep (p # q # ps) = p @ sep @ join sep (q # ps)"

text \<open>\<open>str(n)\<close> of a non-negative integer, as an f-string prints a count.\<close>

definition digit_char :: "nat \<Rightarrow> char" where
  "digit_char d = ''0123456789'' ! (d mod 10)"

function str_nat :: "nat \<Rightarrow> string" where
  "str_nat n = (if n < 10 then [digit_char n] else str_nat (n div 10) @ [digit_char n])"
  by pat_completeness auto
termination
  by (relation "measure id") auto

declare str_nat.simps [simp del]

text \<open>\<open>s[:n] + "..." if len(s) > n else s\<close>, the truncation both tools use.\<close>

definition truncate_to :: "nat \<Rightarrow> string \<Rightarrow> string" where
  "truncate_to n s = (if length s > n then take n s @ ''...'' else s)"

subsection \<open>Facts about the strings\<close>

text \<open>A joined non-empty list is its head followed by each further part behind the separator.\<close>

lemma join_Cons_concat: "join sep (p # ps) = p @ concat (map (\<lambda>q. sep @ q) ps)"
  by (induction ps arbitrary: p) auto

text \<open>
  \<open>str_nat\<close> writes the decimal digits of its argument: reading them back, most
  significant first, gives the number.
\<close>

lemma below_ten: "(k::nat) < 10 \<Longrightarrow>
    k = 0 \<or> k = 1 \<or> k = 2 \<or> k = 3 \<or> k = 4 \<or> k = 5 \<or> k = 6 \<or> k = 7 \<or> k = 8 \<or> k = 9"
  by arith

lemma digit_char_value: "of_char (digit_char d) = 48 + d mod 10"
proof -
  have "d mod 10 < 10" by simp
  from below_ten[OF this] show ?thesis
    by (elim disjE) (simp_all add: digit_char_def)
qed

lemma str_nat_decimal: "foldl (\<lambda>n c. 10 * n + (of_char c - 48)) 0 (str_nat n) = n"
proof (induction n rule: str_nat.induct)
  case (1 n)
  show ?case
  proof (cases "n < 10")
    case True
    then show ?thesis
      by (subst str_nat.simps) (simp add: digit_char_value)
  next
    case False
    with 1 show ?thesis
      by (subst str_nat.simps) (simp add: digit_char_value)
  qed
qed

section \<open>Tool results\<close>

text \<open>
  Every tool returns \<open>{"content": [{"type": "text", "text": ...}]}\<close>; the model keeps the
  text.  What a tool hands to the blocking collaborator it drives (the scraper, the
  sub-agent runner) is recorded beside it, one entry per call, so that "nothing was
  dispatched" is the empty list.
\<close>

record 'c tool_outcome =
  response :: string
  dispatched :: "'c list"

record titled_link =
  title :: string
  link :: string

section \<open>darkweb_scrape (agent/tools.py)\<close>

text \<open>
  An entry of the \<open>targets\<close> list: a dict (its string-valued keys, in order), a bare
  string, or any other JSON value.
\<close>

datatype target = TDict "(string \<times> string) list" | TStr string | TOther



text \<open>The loop building \<open>urls_data\<close>: an entry that passes neither test is skipped.\<close>

fun collect_urls :: "target list \<Rightarrow> titled_link list" where
  "collect_urls [] = []"
| "collect_urls (TDict d # ts) =
     (case map_of d ''link'' of
        Some l \<Rightarrow>
          \<lparr>title = (case map_of d ''title'' of None \<Rightarrow> ''Unknown'' | Some t \<Rightarrow> t), link = l\<rparr>
            # collect_urls ts
      | None \<Rightarrow> collect_urls ts)"
| "collect_urls (TStr s # ts) = \<lparr>title = ''Unknown'', link = s\<rparr> # collect_urls ts"
| "collect_urls (TOther # ts) = collect_urls ts"

definition msg_no_targets :: string where
  "msg_no_targets =
     ''No targets provided. Please specify URLs to scrape as a list of objects with 'title' and 'link' keys.''"

definition msg_invalid_targets :: string where
  "msg_invalid_targets =
     ''Invalid target format. Provide a list of objects with 'title' and 'link' keys, or a list of URL strings.''"

definition msg_scrape_nothing :: string where
  "msg_scrape_nothing =
     ''Failed to scrape any content. The .onion sites may be offline or blocking requests.''"

definition msg_scrape_failed :: "string \<Rightarrow> string" where
  "msg_scrape_failed e = ''Scraping failed: '' @ e @ ''. Some .onion sites may be offline.''"

definition scrape_next_step :: string where
  "scrape_next_step = newline @ newline @
     ''**Next step**: Analyze this content for intelligence artifacts and generate your findings report.''"

text \<open>
  \<open>scrape_multiple\<close> (core/scrape.py) is the external transport: given \<open>urls_data\<close> and
  \<open>max_workers\<close> it raises (\<open>Inl\<close> of \<open>str(e)\<close>) or returns a dict from url to content,
  here the list of its items in the dict's order; a content may be \<open>None\<close>.
\<close>

type_synonym scrape_results = "(string \<times> string option) list"
type_synonym scraper = "titled_link list \<Rightarrow> int \<Rightarrow> string + scrape_results"

text \<open>\<open>content and len(content) > 50\<close>.\<close>

fun meaningful :: "string option \<Rightarrow> bool" where
  "meaningful None = False"
| "meaningful (Some c) = (c \<noteq> [] \<and> length c > 50)"

definition source_heading :: "string \<Rightarrow> string" where
  "source_heading url = ''## Source: '' @ url"

definition source_block :: "string \<Rightarrow> string \<Rightarrow> string" where
  "source_block url body =
     source_heading url @ newline @ newline @ body @ newline @ newline @ ''---''"

definition minimal_placeholder :: string where
  "minimal_placeholder = ''*[Minimal or no content extracted]*''"

text \<open>One iteration of the formatting loop over \<open>results.items()\<close>.\<close>

fun format_item :: "string \<times> string option \<Rightarrow> string" where
  "format_item (url, content) =
     (if meaningful content then source_block url (truncate_to 2000 (the content))
      else source_block url minimal_placeholder)"

fun format_loop :: "scrape_results \<Rightarrow> string list \<times> nat \<Rightarrow> string list \<times> nat" where
  "format_loop [] acc = acc"
| "format_loop ((url, content) # rest) (content_parts, success_count) =
     (if meaningful content
      then format_loop rest (content_parts @ [format_item (url, content)], success_count + 1)
      else format_loop rest (content_parts @ [format_item (url, content)], success_count))"

definition scrape_header :: "nat \<Rightarrow> nat \<Rightarrow> string" where
  "scrape_header success_count n_urls =
     ''Successfully scraped **'' @ str_nat success_count @ ''/'' @ str_nat n_urls
       @ ''** pages.'' @ newline @ newline"

definition scrape_report :: "scrape_results \<Rightarrow> nat \<Rightarrow> string" where
  "scrape_report results n_urls =
     (case format_loop results ([], 0) of
        (content_parts, success_count) \<Rightarrow>
          scrape_header success_count n_urls @ join newline content_parts @ scrape_next_step)"

definition darkweb_scrape ::
    "scraper \<Rightarrow> target list \<Rightarrow> int option \<Rightarrow> (titled_link list \<times> int) tool_outcome" where
  "darkweb_scrape scrape_multiple targets max_workers_arg =
     (let max_workers = (case max_workers_arg of None \<Rightarrow> 5 | Some w \<Rightarrow> w) in
      if targets = [] then \<lparr>response = msg_no_targets, dispatched = []\<rparr>
      else
        let urls_data = collect_urls targets in
        if urls_data = [] then \<lparr>response = msg_invalid_targets, dispatched = []\<rparr>
        else
          (case scrape_multiple urls_data max_workers of
             Inl e \<Rightarrow>
               \<lparr>response = msg_scrape_failed e, dispatched = [(urls_data, max_workers)]\<rparr>
           | Inr results \<Rightarrow>
               if results = []
               then \<lparr>response = msg_scrape_nothing, dispatched = [(urls_data, max_workers)]\<rparr>
               else \<lparr>response = scrape_report results (length urls_data),
                     dispatched = [(urls_data, max_workers)]\<rparr>))"

subsection \<open>Validation of the targets (C2)\<close>







subsection \<open>Classification and formatting of the scraped content (C3)\<close>




lemma sublist_join: "p \<in> set ps \<Longrightarrow> sublist p (join sep ps)"
proof (induction sep ps rule: join.induct)
  case (3 sep p' q ps)
  then show ?case
    by (auto simp: sublist_append)
qed auto











section \<open>darkweb_search (agent/tools.py)\<close>

text \<open>
  \<open>get_search_results\<close> (core/search.py) is the external search: given the query and
  \<open>max_workers\<close> it raises (\<open>Inl\<close> of \<open>str(e)\<close>) or returns the list of unique results,
  each a dict with a \<open>title\<close> and a \<open>link\<close>.
\<close>

type_synonym searcher = "string \<Rightarrow> int \<Rightarrow> string + titled_link list"

text \<open>\<open>query.replace(" ", "+")\<close>.\<close>

definition plus_for_spaces :: "string \<Rightarrow> string" where
  "plus_for_spaces q = map (\<lambda>c. if c = CHR '' '' then CHR ''+'' else c) q"

definition msg_search_failed :: "string \<Rightarrow> string" where
  "msg_search_failed e = ''Search failed: '' @ e @ ''. Make sure Tor is running on port 9050.''"

definition msg_no_results :: string where
  "msg_no_results =
     ''No results found. Try refining your search query or check Tor connectivity.''"

text \<open>The entry \<open>f"{i}. **{title}**\n   URL: {link}"\<close> of result number \<open>i\<close>.\<close>

definition format_result :: "nat \<Rightarrow> titled_link \<Rightarrow> string" where
  "format_result i res =
     str_nat i @ ''. **'' @ truncate_to 80 (title res) @ ''**'' @ newline
       @ ''   URL: '' @ link res"

text \<open>The loop over \<open>enumerate(results, 1)\<close>, started at number \<open>i\<close>.\<close>

fun format_results :: "nat \<Rightarrow> titled_link list \<Rightarrow> string list" where
  "format_results i [] = []"
| "format_results i (res # rest) = format_result i res # format_results (i + 1) rest"

definition search_header :: "nat \<Rightarrow> string" where
  "search_header total_count =
     ''Found **'' @ str_nat total_count @ ''** unique results from dark web search engines.''
       @ newline @ newline"

definition more_marker :: "nat \<Rightarrow> string" where
  "more_marker hidden = newline @ newline @ ''... and '' @ str_nat hidden @ '' more results.''"

definition search_next_step :: string where
  "search_next_step = newline @ newline @
     ''**Next step**: Select the most relevant results and use `darkweb_scrape` with a list of targets containing title and link for each.''"

definition darkweb_search ::
    "searcher \<Rightarrow> string \<Rightarrow> int option \<Rightarrow> (string \<times> int) tool_outcome" where
  "darkweb_search get_search_results query max_workers_arg =
     (let max_workers = (case max_workers_arg of None \<Rightarrow> 5 | Some w \<Rightarrow> w);
          call = (plus_for_spaces query, max_workers)
      in case get_search_results (plus_for_spaces query) max_workers of
           Inl e \<Rightarrow> \<lparr>response = msg_search_failed e, dispatched = [call]\<rparr>
         | Inr results \<Rightarrow>
             if results = [] then \<lparr>response = msg_no_results, dispatched = [call]\<rparr>
             else
               let formatted = format_results 1 results;
                   display_results = take 50 formatted;
                   total_count = length results;
                   result_text = search_header total_count
                                   @ join (newline @ newline) display_results;
                   result_text = (if total_count > 50
                                  then result_text @ more_marker (total_count - 50)
                                  else result_text)
               in \<lparr>response = result_text @ search_next_step, dispatched = [call]\<rparr>)"

subsection \<open>The display cap (C9)\<close>

definition canned_search :: "titled_link list \<Rightarrow> searcher" where
  "canned_search results q max_workers = Inr results"

lemma take_format_results: "take n (format_results i rs) = format_results i (take n rs)"
  by (induction rs arbitrary: n i) (auto simp: take_Cons split: nat.splits)

lemma format_results_nth:
  "format_results i rs = map (\<lambda>k. format_result (i + k) (rs ! k)) [0..<length rs]"
proof (induction rs arbitrary: i)
  case Nil
  then show ?case by simp
next
  case (Cons r rs)
  have "map (\<lambda>k. format_result (i + k) ((r # rs) ! k)) [0..<Suc (length rs)]
      = format_result i r # map (\<lambda>k. format_result (i + Suc k) (rs ! k)) [0..<length rs]"
    by (simp add: map_upt_Suc del: upt_Suc)
  with Cons.IH[of "i + 1"] show ?case
    by simp
qed

lemma take_format_results_nth:
  "take 50 (format_results 1 rs)
     = map (\<lambda>k. format_result (1 + k) (rs ! k)) [0..<min (length rs) 50]"
proof -
  have "take 50 (format_results 1 rs) = format_results 1 (take 50 rs)"
    by (rule take_format_results)
  also have "\<dots> = map (\<lambda>k. format_result (1 + k) (take 50 rs ! k)) [0..<min (length rs) 50]"
    by (simp add: format_results_nth)
  also have "\<dots> = map (\<lambda>k. format_result (1 + k) (rs ! k)) [0..<min (length rs) 50]"
    by (rule map_cong) simp_all
  finally show ?thesis .
qed

lemma joined_entries:
  assumes "rs \<noteq> []"
  shows "join sep (take 50 (format_results 1 rs))
     = format_result 1 (rs ! 0)
         @ concat (map (\<lambda>k. sep @ format_result (k + 1) (rs ! k)) [1..<min (length rs) 50])"
proof -
  from assms have pos: "0 < min (length rs) 50"
    by simp
  have "[0..<min (length rs) 50] = 0 # [1..<min (length rs) 50]"
    using pos by (simp add: upt_conv_Cons)
  then show ?thesis
    unfolding take_format_results_nth
    by (simp add: join_Cons_concat comp_def)
qed

text \<open>
  C9, amended: when the search returns \<open>N\<close> results, the response is, for \<open>N = 0\<close>, the
  "No results found" message, which reports no count; and for \<open>N > 0\<close> the header
  \<open>Found **N** unique results ...\<close>, then the entries of the first \<open>min N 50\<close> results
  only, numbered from 1 (a title longer than 80 characters cut to 80 and \<open>...\<close>), then
  the marker \<open>... and N - 50 more results.\<close> exactly when \<open>N > 50\<close>, then the next-step
  hint.  The numbers are written in decimal.
\<close>

theorem darkweb_search_report:
  assumes "search (map (\<lambda>c. if c = CHR '' '' then CHR ''+'' else c) query)
             (case mw of None \<Rightarrow> 5 | Some w \<Rightarrow> w) = Inr results"
  shows "response (darkweb_search search query mw) =
     (let entry = (\<lambda>i. str_nat (i + 1) @ ''. **''
                     @ (if 80 < length (title (results ! i))
                        then take 80 (title (results ! i)) @ ''...''
                        else title (results ! i))
                     @ ''**'' @ [CHR 0x0A] @ ''   URL: '' @ link (results ! i))
      in if results = []
         then ''No results found. Try refining your search query or check Tor connectivity.''
         else ''Found **'' @ str_nat (length results)
                @ ''** unique results from dark web search engines.'' @ [CHR 0x0A, CHR 0x0A]
                @ entry 0
                @ concat (map (\<lambda>i. [CHR 0x0A, CHR 0x0A] @ entry i)
                            [1..<min (length results) 50])
                @ (if 50 < length results
                   then [CHR 0x0A, CHR 0x0A] @ ''... and '' @ str_nat (length results - 50)
                          @ '' more results.''
                   else [])
                @ [CHR 0x0A, CHR 0x0A]
                @ ''**Next step**: Select the most relevant results and use `darkweb_scrape` with a list of targets containing title and link for each.'')
   \<and> (\<forall>n. foldl (\<lambda>v c. 10 * v + (of_char c - 48)) 0 (str_nat n) = n)"
proof (intro conjI allI)
  show "foldl (\<lambda>v c. 10 * v + (of_char c - 48)) 0 (str_nat n) = n" for n
    by (rule str_nat_decimal)
next
  show "response (darkweb_search search query mw) =
     (let entry = (\<lambda>i. str_nat (i + 1) @ ''. **''
                     @ (if 80 < length (title (results ! i))
                        then take 80 (title (results ! i)) @ ''...''
                        else title (results ! i))
                     @ ''**'' @ [CHR 0x0A] @ ''   URL: '' @ link (results ! i))
      in if results = []
         then ''No results found. Try refining your search query or check Tor connectivity.''
         else ''Found **'' @ str_nat (length results)
                @ ''** unique results from dark web search engines.'' @ [CHR 0x0A, CHR 0x0A]
                @ entry 0
                @ concat (map (\<lambda>i. [CHR 0x0A, CHR 0x0A] @ entry i)
                            [1..<min (length results) 50])
                @ (if 50 < length results
                   then [CHR 0x0A, CHR 0x0A] @ ''... and '' @ str_nat (length results - 50)
                          @ '' more results.''
                   else [])
                @ [CHR 0x0A, CHR 0x0A]
                @ ''**Next step**: Select the most relevant results and use `darkweb_scrape` with a list of targets containing title and link for each.'')"
  proof (cases "results = []")
    case True
    with assms show ?thesis
      by (simp add: darkweb_search_def plus_for_spaces_def msg_no_results_def Let_def)
  next
    case False
    with assms have r: "response (darkweb_search search query mw) =
        search_header (length results)
          @ join (newline @ newline) (take 50 (format_results 1 results))
          @ (if 50 < length results then more_marker (length results - 50) else [])
          @ search_next_step"
      by (simp add: darkweb_search_def plus_for_spaces_def Let_def del: One_nat_def)
    show ?thesis
      unfolding r joined_entries[OF False]
      using False
      by (simp add: search_header_def more_marker_def search_next_step_def format_result_def
            truncate_to_def newline_def Let_def)
  qed
qed

definition two_results :: "titled_link list" where
  "two_results =
     [\<lparr>title = ''Forum'', link = ''http://a.onion''\<rparr>,
      \<lparr>title = ''Market'', link = ''http://b.onion''\<rparr>]"

text \<open>
  C9, as stated, fails at \<open>N = 0\<close>: a search that yields no result is answered with the
  "No results found" message, which reports no total count (no \<open>0\<close> is in it).
\<close>

theorem darkweb_search_no_count:
  "response (darkweb_search (canned_search []) ''ransomware payments'' None)
     = ''No results found. Try refining your search query or check Tor connectivity.''
   \<and> CHR ''0'' \<notin> set (response (darkweb_search (canned_search []) ''ransomware payments'' None))"
  by (simp add: darkweb_search_def canned_search_def msg_no_results_def)

theorem darkweb_search_report_witness:
  "response (darkweb_search (canned_search two_results) ''ransomware payments'' None)
     = ''Found **2** unique results from dark web search engines.'' @ [CHR 0x0A, CHR 0x0A]
         @ ''1. **Forum**'' @ [CHR 0x0A] @ ''   URL: http://a.onion'' @ [CHR 0x0A, CHR 0x0A]
         @ ''2. **Market**'' @ [CHR 0x0A] @ ''   URL: http://b.onion'' @ [CHR 0x0A, CHR 0x0A]
         @ ''**Next step**: Select the most relevant results and use `darkweb_scrape` with a list of targets containing title and link for each.''
   \<and> response (darkweb_search (canned_search []) ''ransomware payments'' None)
     = ''No results found. Try refining your search query or check Tor connectivity.''"
proof -
  have two: "canned_search two_results
      (map (\<lambda>c. if c = CHR '' '' then CHR ''+'' else c) ''ransomware payments'')
      (case None of None \<Rightarrow> 5 | Some w \<Rightarrow> w) = Inr two_results"
    by (simp add: canned_search_def)
  have none: "canned_search []
      (map (\<lambda>c. if c = CHR '' '' then CHR ''+'' else c) ''ransomware payments'')
      (case None of None \<Rightarrow> 5 | Some w \<Rightarrow> w) = Inr []"
    by (simp add: canned_search_def)
  have digits: "str_nat (Suc 0) = ''1''" "str_nat (Suc (Suc 0)) = ''2''"
    by (simp_all add: str_nat.simps digit_char_def)
  have range: "[1..<min (length two_results) 50] = [1]"
    by (simp add: two_results_def)
  note a = darkweb_search_report[of "canned_search two_results" "''ransomware payments''" None
      two_results, OF two]
  note b = darkweb_search_report[of "canned_search []" "''ransomware payments''" None "[]",
      OF none]
  from conjunct1[OF a] conjunct1[OF b]
  show ?thesis
    unfolding Let_def range
    by (simp add: two_results_def digits)
qed

section \<open>Search across the roster of sources\<close>

text \<open>
  Modelled from the spec: \<open>get_search_results\<close> (core/search.py, the function behind
  \<open>darkweb_search\<close>, is not among the sources).  Section 4.1: the query goes to a fixed
  roster of sources; a failing source contributes zero results; after all sources
  complete, the results are deduplicated by normalized link, preserving first-seen order
  across the roster's fixed source order.  The roster's answers are given in roster order,
  one list per source, and the normalization of a link is a parameter.
\<close>

fun first_seen :: "(string \<Rightarrow> string) \<Rightarrow> string list \<Rightarrow> titled_link list \<Rightarrow> titled_link list" where
  "first_seen norm_link seen [] = []"
| "first_seen norm_link seen (res # rest) =
     (if norm_link (link res) \<in> set seen then first_seen norm_link seen rest
      else res # first_seen norm_link (norm_link (link res) # seen) rest)"

definition roster_answers :: "(string \<Rightarrow> titled_link list) list \<Rightarrow> string \<Rightarrow> titled_link list" where
  "roster_answers roster refined_query = concat (map (\<lambda>source. source refined_query) roster)"

definition get_search_results ::
    "(string \<Rightarrow> string) \<Rightarrow> (string \<Rightarrow> titled_link list) list \<Rightarrow> searcher" where
  "get_search_results norm_link roster refined_query max_workers =
     Inr (first_seen norm_link [] (roster_answers roster refined_query))"

text \<open>A source that answers every query with the same results.\<close>

definition source_of :: "titled_link list \<Rightarrow> string \<Rightarrow> titled_link list" where
  "source_of results refined_query = results"

definition hit :: "string \<Rightarrow> titled_link" where
  "hit l = \<lparr>title = ''page'', link = l\<rparr>"

lemma first_seen_keys:
  "(\<lambda>r. norm_link (link r)) ` set (first_seen norm_link seen rs) =
     (\<lambda>r. norm_link (link r)) ` set rs - set seen"
  by (induction rs arbitrary: seen) auto

lemma first_seen_distinct:
  "distinct (map (\<lambda>r. norm_link (link r)) (first_seen norm_link seen rs))"
proof (induction rs arbitrary: seen)
  case Nil
  then show ?case by simp
next
  case (Cons a rs)
  have "norm_link (link a) \<notin>
      (\<lambda>r. norm_link (link r)) ` set (first_seen norm_link (norm_link (link a) # seen) rs)"
    unfolding first_seen_keys by simp
  with Cons.IH show ?case
    by simp
qed

lemma first_seen_subseq: "subseq (first_seen norm_link seen rs) rs"
  by (induction rs arbitrary: seen) auto

lemma first_seen_first:
  "r \<in> set (first_seen norm_link seen rs) \<Longrightarrow>
     find (\<lambda>x. norm_link (link x) = norm_link (link r)) rs = Some r"
proof (induction rs arbitrary: seen)
  case Nil
  then show ?case by simp
next
  case (Cons a rs)
  show ?case
  proof (cases "norm_link (link a) \<in> set seen")
    case True
    with Cons.prems have in_rest: "r \<in> set (first_seen norm_link seen rs)"
      by simp
    then have "norm_link (link r) \<in> (\<lambda>r. norm_link (link r)) ` set (first_seen norm_link seen rs)"
      by (rule imageI)
    then have "norm_link (link r) \<notin> set seen"
      unfolding first_seen_keys by simp
    with True have "norm_link (link a) \<noteq> norm_link (link r)"
      by auto
    with Cons.IH[OF in_rest] show ?thesis
      by simp
  next
    case False
    show ?thesis
    proof (cases "r = a")
      case True
      then show ?thesis by simp
    next
      case ne: False
      with False Cons.prems
      have in_rest: "r \<in> set (first_seen norm_link (norm_link (link a) # seen) rs)"
        by simp
      then have "norm_link (link r) \<in> (\<lambda>r. norm_link (link r)) `
          set (first_seen norm_link (norm_link (link a) # seen) rs)"
        by (rule imageI)
      then have "norm_link (link r) \<noteq> norm_link (link a)"
        unfolding first_seen_keys by simp
      with Cons.IH[OF in_rest] show ?thesis
        by simp
    qed
  qed
qed

text \<open>
  C4: the search returns a list in which no two entries have the same normalized link;
  it is a subsequence of the sources' answers taken in roster order, covers every
  normalized link they hold, and keeps of each link the first entry in that order.
\<close>

theorem get_search_results_unique:
  "\<exists>out. get_search_results norm_link roster q w = Inr out
     \<and> distinct (map (\<lambda>r. norm_link (link r)) out)
     \<and> subseq out (roster_answers roster q)
     \<and> (\<lambda>r. norm_link (link r)) ` set out
         = (\<lambda>r. norm_link (link r)) ` set (roster_answers roster q)
     \<and> (\<forall>r \<in> set out.
           find (\<lambda>x. norm_link (link x) = norm_link (link r)) (roster_answers roster q) = Some r)"
  unfolding get_search_results_def
  using first_seen_first[of _ norm_link "[]" "roster_answers roster q"]
  by (simp add: first_seen_distinct first_seen_subseq first_seen_keys)

text \<open>The scenario of the spec: three sources answering \<open>{A,B}\<close>, \<open>{B,C}\<close>, \<open>{D}\<close>.\<close>

definition three_sources :: "(string \<Rightarrow> titled_link list) list" where
  "three_sources =
     [source_of [hit ''A'', hit ''B''], source_of [hit ''B'', hit ''C''], source_of [hit ''D'']]"

theorem get_search_results_unique_witness:
  "get_search_results id three_sources ''ransomware+payments+2024'' 5
     = Inr [hit ''A'', hit ''B'', hit ''C'', hit ''D'']
   \<and> distinct (map (\<lambda>r. id (link r)) [hit ''A'', hit ''B'', hit ''C'', hit ''D''])
   \<and> find (\<lambda>x. id (link x) = id (link (hit ''B'')))
        (roster_answers three_sources ''ransomware+payments+2024'') = Some (hit ''B'')"
proof -
  have out: "get_search_results id three_sources ''ransomware+payments+2024'' 5
     = Inr [hit ''A'', hit ''B'', hit ''C'', hit ''D'']"
    by (simp add: get_search_results_def roster_answers_def three_sources_def source_of_def
          hit_def)
  from get_search_results_unique[of id three_sources "''ransomware+payments+2024''" 5]
  show ?thesis
    unfolding out by auto
qed

section \<open>delegate_analysis (agent/tools.py)\<close>

text \<open>\<open>SubAgentResult\<close>, as tests/test_subagents.py constructs it.\<close>

record subagent_result =
  agent_type :: string
  analysis :: string
  success :: bool
  error :: "string option"

text \<open>
  Modelled from the spec: \<open>get_available_subagents\<close> (agent/subagents.py is not among the
  sources) returns a copy of the registry of worker kinds (section 4.3), a dict from the
  name of a sub-agent to its description, here the list of its items.  Its keys are the
  four names tests/test_subagents.py expects and the tool's description lists, in that
  order; the descriptions (agent/prompts.py) are a parameter.
\<close>

definition subagent_names :: "string list" where
  "subagent_names =
     [''ThreatActorProfiler'', ''IOCExtractor'', ''MalwareAnalyst'', ''MarketplaceInvestigator'']"

definition get_available_subagents :: "(string \<Rightarrow> string) \<Rightarrow> (string \<times> string) list" where
  "get_available_subagents description = map (\<lambda>k. (k, description k)) subagent_names"

text \<open>
  \<open>run_subagents_parallel\<close> (agent/subagents.py): given the agent types, the content and
  the context it raises (\<open>Inl\<close> of \<open>str(e)\<close>) or returns the results.
\<close>

type_synonym runner = "string list \<Rightarrow> string \<Rightarrow> string \<Rightarrow> string + subagent_result list"

text \<open>
  How an f-string prints a list of strings: \<open>[\<close>, the \<open>repr\<close> of each element separated
  by a comma and a space, \<open>]\<close>.  Python's \<open>repr\<close> of a string (its quoting and escaping) is a
  parameter.
\<close>

definition py_list :: "(string \<Rightarrow> string) \<Rightarrow> string list \<Rightarrow> string" where
  "py_list repr xs = ''['' @ join '', '' (map repr xs) @ '']''"

definition msg_no_agents :: "(string \<times> string) list \<Rightarrow> string" where
  "msg_no_agents available =
     ''No agents specified. Available sub-agents:'' @ newline @ newline
       @ join newline (map (\<lambda>(k, v). ''- **'' @ k @ ''**: '' @ v) available)"

definition msg_invalid_agents :: "(string \<Rightarrow> string) \<Rightarrow> string list \<Rightarrow> string list \<Rightarrow> string" where
  "msg_invalid_agents repr invalid valid =
     ''Invalid agent types: '' @ py_list repr invalid @ ''. Valid types: '' @ py_list repr valid"

definition msg_no_content :: string where
  "msg_no_content =
     ''No content provided for analysis. Please include the scraped content to analyze.''"

definition msg_subagents_failed :: "string \<Rightarrow> string" where
  "msg_subagents_failed e = ''Sub-agent execution failed: '' @ e"

definition format_subagent :: "subagent_result \<Rightarrow> string" where
  "format_subagent result =
     (if success result
      then ''### '' @ agent_type result @ newline @ newline @ analysis result @ newline
      else ''### '' @ agent_type result @ newline @ newline @ ''*Analysis failed: ''
             @ (case error result of None \<Rightarrow> ''None'' | Some e \<Rightarrow> e) @ ''*'' @ newline)"

definition delegation_report :: "string list \<Rightarrow> subagent_result list \<Rightarrow> string" where
  "delegation_report agent_types results =
     join newline
       ([''## Sub-Agent Analysis Results'' @ newline @ newline @ ''Delegated to: ''
           @ join '', '' agent_types @ newline]
        @ map format_subagent results
        @ [''---'' @ newline @ newline
             @ ''**Next step**: Synthesize these findings into your final report.''])"

definition delegate_analysis ::
    "(string \<Rightarrow> string) \<Rightarrow> (string \<Rightarrow> string) \<Rightarrow> runner \<Rightarrow> string list \<Rightarrow> string \<Rightarrow> string option
       \<Rightarrow> (string list \<times> string \<times> string) tool_outcome" where
  "delegate_analysis repr description run_subagents_parallel agent_types content context_arg =
     (let context = (case context_arg of None \<Rightarrow> [] | Some c \<Rightarrow> c) in
      if agent_types = []
      then \<lparr>response = msg_no_agents (get_available_subagents description), dispatched = []\<rparr>
      else
        let available = get_available_subagents description;
            invalid = filter (\<lambda>a. a \<notin> set (map fst available)) agent_types
        in if invalid \<noteq> []
           then \<lparr>response = msg_invalid_agents repr invalid (map fst available), dispatched = []\<rparr>
           else if content = [] then \<lparr>response = msg_no_content, dispatched = []\<rparr>
           else
             (case run_subagents_parallel agent_types content context of
                Inl e \<Rightarrow> \<lparr>response = msg_subagents_failed e,
                          dispatched = [(agent_types, content, context)]\<rparr>
              | Inr results \<Rightarrow> \<lparr>response = delegation_report agent_types results,
                                dispatched = [(agent_types, content, context)]\<rparr>))"

subsection \<open>Unknown and missing agent types (C5)\<close>

definition quoted :: "string \<Rightarrow> string" where
  "quoted s = [CHR 0x27] @ s @ [CHR 0x27]"

definition no_description :: "string \<Rightarrow> string" where
  "no_description k = []"

definition idle_runner :: runner where
  "idle_runner agent_types content context = Inr []"

lemma keys_available: "map fst (get_available_subagents description) = subagent_names"
  by (simp add: get_available_subagents_def comp_def)

lemma key_set_available: "fst ` set (get_available_subagents description) = set subagent_names"
  using keys_available[of description] by (metis set_map)

lemma sublist_py_list: "x \<in> set xs \<Longrightarrow> sublist (repr x) (py_list repr xs)"
proof -
  assume "x \<in> set xs"
  then have "sublist (repr x) (join '', '' (map repr xs))"
    by (intro sublist_join) simp
  then show ?thesis
    unfolding py_list_def
    using sublist_order.order.trans sublist_appendI by metis
qed

text \<open>
  C5: a call whose \<open>agent_types\<close> holds a name outside the registry runs no sub-agent and
  answers with the message naming the list of all invalid names (in the order given)
  and the list of the four valid names, so the \<open>repr\<close> of every invalid name and of every
  valid name is in the message; an empty \<open>agent_types\<close> runs no sub-agent either and is
  answered with the list of available sub-agents.
\<close>

theorem delegate_analysis_rejects_unknown:
  "(dispatched (delegate_analysis repr description run [] content context) = []
    \<and> response (delegate_analysis repr description run [] content context) =
        msg_no_agents (get_available_subagents description))
   \<and> ((\<exists>a \<in> set agent_types. a \<notin> set subagent_names) \<longrightarrow>
     dispatched (delegate_analysis repr description run agent_types content context) = []
     \<and> response (delegate_analysis repr description run agent_types content context) =
         ''Invalid agent types: ''
           @ py_list repr (filter (\<lambda>a. a \<notin> set subagent_names) agent_types)
           @ ''. Valid types: '' @ py_list repr subagent_names
     \<and> (\<forall>a \<in> set agent_types. a \<notin> set subagent_names \<longrightarrow>
           sublist (repr a)
             (response (delegate_analysis repr description run agent_types content context)))
     \<and> (\<forall>k \<in> set subagent_names.
           sublist (repr k)
             (response (delegate_analysis repr description run agent_types content context))))"
proof (intro conjI)
  show "dispatched (delegate_analysis repr description run [] content context) = []"
    by (simp add: delegate_analysis_def)
  show "response (delegate_analysis repr description run [] content context) =
        msg_no_agents (get_available_subagents description)"
    by (simp add: delegate_analysis_def)
next
  let ?P = "\<lambda>out. dispatched (delegate_analysis repr description run agent_types content context) = []
     \<and> out = ''Invalid agent types: ''
           @ py_list repr (filter (\<lambda>a. a \<notin> set subagent_names) agent_types)
           @ ''. Valid types: '' @ py_list repr subagent_names
     \<and> (\<forall>a \<in> set agent_types. a \<notin> set subagent_names \<longrightarrow> sublist (repr a) out)
     \<and> (\<forall>k \<in> set subagent_names. sublist (repr k) out)"
  let ?out = "response (delegate_analysis repr description run agent_types content context)"
  let ?invalid = "filter (\<lambda>a. a \<notin> set subagent_names) agent_types"
  have "?P ?out" if bad: "\<exists>a \<in> set agent_types. a \<notin> set subagent_names"
  proof -
    from bad have ne: "agent_types \<noteq> []" and inv: "?invalid \<noteq> []"
    by (auto simp: filter_empty_conv)
  have disp: "dispatched (delegate_analysis repr description run agent_types content context) = []"
    using ne inv by (simp add: delegate_analysis_def Let_def keys_available key_set_available)
  have out: "?out = ''Invalid agent types: '' @ py_list repr ?invalid
           @ ''. Valid types: '' @ py_list repr subagent_names"
    using ne inv by (simp add: delegate_analysis_def Let_def keys_available key_set_available
          msg_invalid_agents_def)
  have in_inv: "sublist (py_list repr ?invalid) ?out"
    unfolding out by (rule sublist_appendI)
  have "?out = (''Invalid agent types: '' @ py_list repr ?invalid @ ''. Valid types: '')
           @ py_list repr subagent_names @ []"
    unfolding out by simp
  then have in_valid: "sublist (py_list repr subagent_names) ?out"
    using sublist_appendI by metis
  have A: "\<forall>a \<in> set agent_types. a \<notin> set subagent_names \<longrightarrow> sublist (repr a) ?out"
  proof (intro ballI impI)
    fix a assume "a \<in> set agent_types" "a \<notin> set subagent_names"
    then have "a \<in> set ?invalid" by simp
    then have "sublist (repr a) (py_list repr ?invalid)"
      by (rule sublist_py_list)
    then show "sublist (repr a) ?out"
      using in_inv by (rule sublist_order.order.trans)
  qed
  have B: "\<forall>k \<in> set subagent_names. sublist (repr k) ?out"
  proof
    fix k assume "k \<in> set subagent_names"
    then have "sublist (repr k) (py_list repr subagent_names)"
      by (rule sublist_py_list)
    then show "sublist (repr k) ?out"
      using in_valid by (rule sublist_order.order.trans)
  qed
  from disp out A B show ?thesis
    by (intro conjI)
  qed
  then show "(\<exists>a \<in> set agent_types. a \<notin> set subagent_names) \<longrightarrow> ?P ?out"
    by (rule impI)
qed

theorem delegate_analysis_rejects_unknown_witness:
  "dispatched (delegate_analysis quoted no_description idle_runner
      [''IOCExtractor'', ''Oracle'', ''MalwareAnalyst'', ''Seer''] ''text'' None) = []
   \<and> response (delegate_analysis quoted no_description idle_runner
      [''IOCExtractor'', ''Oracle'', ''MalwareAnalyst'', ''Seer''] ''text'' None) =
       ''Invalid agent types: '' @ py_list quoted [''Oracle'', ''Seer'']
         @ ''. Valid types: '' @ py_list quoted subagent_names
   \<and> dispatched (delegate_analysis quoted no_description idle_runner [] ''text'' None) = []"
proof -
  have bad: "\<exists>a \<in> set [''IOCExtractor'', ''Oracle'', ''MalwareAnalyst'', ''Seer''].
      a \<notin> set subagent_names"
    by (simp add: subagent_names_def)
  have inv: "filter (\<lambda>a. a \<notin> set subagent_names)
      [''IOCExtractor'', ''Oracle'', ''MalwareAnalyst'', ''Seer''] = [''Oracle'', ''Seer'']"
    by (simp add: subagent_names_def)
  note main = delegate_analysis_rejects_unknown[of quoted no_description idle_runner "''text''" None
      "[''IOCExtractor'', ''Oracle'', ''MalwareAnalyst'', ''Seer'']"]
  from conjunct2[OF main, rule_format, OF bad] conjunct1[OF main]
  show ?thesis
    unfolding inv by blast
qed

subsection \<open>Missing content (C10)\<close>



section \<open>RobinAgent (agent/client.py)\<close>

text \<open>
  The input of a tool use is a JSON object; of its values the model keeps strings, lists
  of strings and \<open>null\<close>.
\<close>

datatype jval = JStr string | JList "string list" | JNull

type_synonym tool_input = "(string \<times> jval) list"

text \<open>\<open>InvestigationResult\<close>.\<close>

record investigation_result =
  res_text :: string
  res_session_id :: "string option"
  res_duration_ms :: "int option"
  res_num_turns :: "int option"
  res_tools_used :: "(string \<times> tool_input) list"

text \<open>
  What the SDK's \<open>query\<close> streams.  \<open>InitMessage d\<close> is a message whose \<open>subtype\<close> is
  \<open>init\<close>: \<open>d\<close> is \<open>None\<close> when it has no (or empty) \<open>data\<close>, else the value of
  \<open>data.get('session_id')\<close>.  \<open>ResultMessage\<close> carries \<open>result\<close>, \<open>duration_ms\<close> and
  \<open>num_turns\<close>, each \<open>None\<close> when absent.
\<close>

datatype block = TextBlock string | ToolUseBlock string tool_input | OtherBlock

datatype message =
    InitMessage "string option option"
  | AssistantMessage "block list"
  | ResultMessage "string option" "int option" "int option"
  | OtherMessage

text \<open>
  One step of the \<open>async for\<close> over \<open>query(...)\<close>: the next message, a suspension of the
  coroutine while it awaits the next message (the event loop runs whatever else is
  scheduled), or an exception raised by the stream.
\<close>

datatype stream_item = Message message | Suspend | Raise string

text \<open>
  The callbacks are callables of the client: they act on the client's state \<open>'s\<close> and may
  raise (\<open>Inl\<close>).  \<open>None\<close> is a callback that was not given.
\<close>

record 's callbacks =
  on_text :: "(string \<Rightarrow> 's \<Rightarrow> string + 's) option"
  on_tool_use :: "(string \<Rightarrow> tool_input \<Rightarrow> 's \<Rightarrow> string + 's) option"
  on_complete :: "(investigation_result \<Rightarrow> 's \<Rightarrow> string + 's) option"

record 's robin_agent = "'s callbacks" +
  model :: string
  session_id :: "string option"
  agent_tools_used :: "(string \<times> tool_input) list"
  mcp_server :: bool

text \<open>The constants of config.py and agent/prompts.py the agent reads.\<close>

record config =
  default_model :: string
  max_agent_turns :: int
  robin_system_prompt :: string

record claude_code_options =
  system_prompt :: string
  opt_model :: string
  max_turns :: int
  allowed_tools :: "string list"
  permission_mode :: string
  resume :: "string option"

definition new_agent :: "config \<Rightarrow> 's callbacks \<Rightarrow> string option \<Rightarrow> 's robin_agent" where
  "new_agent cfg cbs model_arg =
     \<lparr>on_text = on_text cbs, on_tool_use = on_tool_use cbs, on_complete = on_complete cbs,
      model = (case model_arg of
                 None \<Rightarrow> default_model cfg
               | Some m \<Rightarrow> if m = [] then default_model cfg else m),
      session_id = None, agent_tools_used = [], mcp_server = False\<rparr>"

definition build_options :: "config \<Rightarrow> 's robin_agent \<Rightarrow> claude_code_options \<times> 's robin_agent" where
  "build_options cfg agent =
     (\<lparr>system_prompt = robin_system_prompt cfg,
       opt_model = model agent,
       max_turns = max_agent_turns cfg,
       allowed_tools = [''mcp__robin__darkweb_search'', ''mcp__robin__darkweb_scrape'',
                        ''mcp__robin__save_report'', ''mcp__robin__delegate_analysis''],
       permission_mode = ''acceptEdits'',
       resume = (case session_id agent of
                   None \<Rightarrow> None
                 | Some sid \<Rightarrow> if sid = [] then None else Some sid)\<rparr>,
      agent\<lparr>mcp_server := True\<rparr>)"

definition reset_session :: "'s robin_agent \<Rightarrow> 's robin_agent" where
  "reset_session agent = agent\<lparr>session_id := None, agent_tools_used := []\<rparr>"

text \<open>
  The state of one call of \<open>investigate\<close>: the agent, the local \<open>full_response\<close>, the
  client's state, the chunks yielded so far, and the exception that ended the call, if
  any.
\<close>

record 's run =
  run_agent :: "'s robin_agent"
  full_response :: string
  client :: 's
  yielded :: "string list"
  raised :: "string option"

definition call_back :: "('s \<Rightarrow> string + 's) option \<Rightarrow> 's run \<Rightarrow> 's run" where
  "call_back cb r =
     (case cb of
        None \<Rightarrow> r
      | Some f \<Rightarrow> (case f (client r) of
                     Inl e \<Rightarrow> r\<lparr>raised := Some e\<rparr>
                   | Inr c \<Rightarrow> r\<lparr>client := c\<rparr>))"

text \<open>
  \<open>full_response += text\<close>, the text callback, \<open>yield text\<close> when streaming: the three
  statements the source writes for a text block and again for the final result text.
\<close>

definition add_text :: "bool \<Rightarrow> string \<Rightarrow> 's run \<Rightarrow> 's run" where
  "add_text stream t r =
     (let r1 = r\<lparr>full_response := full_response r @ t\<rparr>;
          r2 = call_back (map_option (\<lambda>f. f t) (on_text (run_agent r1))) r1
      in if raised r2 \<noteq> None then r2
         else if stream then r2\<lparr>yielded := yielded r2 @ [t]\<rparr>
         else r2)"

fun handle_block :: "bool \<Rightarrow> block \<Rightarrow> 's run \<Rightarrow> 's run" where
  "handle_block stream (TextBlock t) r = add_text stream t r"
| "handle_block stream (ToolUseBlock tool_name tool_input) r =
     (let r1 = r\<lparr>run_agent := (run_agent r)
                 \<lparr>agent_tools_used := agent_tools_used (run_agent r) @ [(tool_name, tool_input)]\<rparr>\<rparr>
      in call_back (map_option (\<lambda>f. f tool_name tool_input) (on_tool_use (run_agent r1))) r1)"
| "handle_block stream OtherBlock r = r"

fun handle_blocks :: "bool \<Rightarrow> block list \<Rightarrow> 's run \<Rightarrow> 's run" where
  "handle_blocks stream [] r = r"
| "handle_blocks stream (b # bs) r =
     (if raised r \<noteq> None then r else handle_blocks stream bs (handle_block stream b r))"

text \<open>The final result text of a \<open>ResultMessage\<close>.\<close>

definition capture_final_result :: "bool \<Rightarrow> string option \<Rightarrow> 's run \<Rightarrow> 's run" where
  "capture_final_result stream result r =
     (case result of
        None \<Rightarrow> r
      | Some result_text \<Rightarrow>
          if result_text \<noteq> [] \<and> \<not> sublist result_text (full_response r)
          then add_text stream result_text r
          else r)"

fun handle_message :: "bool \<Rightarrow> message \<Rightarrow> 's run \<Rightarrow> 's run" where
  "handle_message stream (InitMessage d) r =
     (case d of
        None \<Rightarrow> r
      | Some sid \<Rightarrow> r\<lparr>run_agent := (run_agent r)\<lparr>session_id := sid\<rparr>\<rparr>)"
| "handle_message stream (AssistantMessage content) r = handle_blocks stream content r"
| "handle_message stream (ResultMessage result duration turns) r =
     (let r1 = capture_final_result stream result r in
      if raised r1 \<noteq> None then r1
      else
        let res = \<lparr>res_text = full_response r1,
                   res_session_id = session_id (run_agent r1),
                   res_duration_ms = duration,
                   res_num_turns = turns,
                   res_tools_used = agent_tools_used (run_agent r1)\<rparr>
        in call_back (map_option (\<lambda>f. f res) (on_complete (run_agent r1))) r1)"
| "handle_message stream OtherMessage r = r"

fun handle_item :: "bool \<Rightarrow> ('s \<Rightarrow> 's) \<Rightarrow> stream_item \<Rightarrow> 's run \<Rightarrow> 's run" where
  "handle_item stream loop_turn (Message m) r = handle_message stream m r"
| "handle_item stream loop_turn Suspend r = r\<lparr>client := loop_turn (client r)\<rparr>"
| "handle_item stream loop_turn (Raise e) r = r\<lparr>raised := Some e\<rparr>"

fun consume :: "bool \<Rightarrow> ('s \<Rightarrow> 's) \<Rightarrow> stream_item list \<Rightarrow> 's run \<Rightarrow> 's run" where
  "consume stream loop_turn [] r = r"
| "consume stream loop_turn (item # items) r =
     (if raised r \<noteq> None then r
      else consume stream loop_turn items (handle_item stream loop_turn item r))"

text \<open>
  \<open>investigate\<close>: the call of \<open>query\<close> it makes (prompt and options) and the state in which
  it ends.  \<open>loop_turn\<close> is what the event loop does to the client's state while the call
  is suspended.
\<close>

definition investigate ::
    "config \<Rightarrow> ('s \<Rightarrow> 's) \<Rightarrow> 's robin_agent \<Rightarrow> string \<Rightarrow> bool \<Rightarrow> stream_item list \<Rightarrow> 's
       \<Rightarrow> (string \<times> claude_code_options) \<times> 's run" where
  "investigate cfg loop_turn agent query_text stream items c =
     (let agent1 = agent\<lparr>agent_tools_used := []\<rparr>;
          (options, agent2) = build_options cfg agent1;
          r = consume stream loop_turn items
                \<lparr>run_agent = agent2, full_response = [], client = c, yielded = [],
                 raised = None\<rparr>
      in ((query_text, options),
          if raised r = None \<and> \<not> stream then r\<lparr>yielded := yielded r @ [full_response r]\<rparr>
          else r))"

definition follow_up ::
    "config \<Rightarrow> ('s \<Rightarrow> 's) \<Rightarrow> 's robin_agent \<Rightarrow> string \<Rightarrow> stream_item list \<Rightarrow> 's
       \<Rightarrow> (string \<times> claude_code_options) \<times> 's run" where
  "follow_up cfg loop_turn agent query_text items c =
     investigate cfg loop_turn agent query_text True items c"

subsection \<open>The final result text is appended unless already streamed (C6)\<close>

text \<open>A client that keeps the texts its text callback received.\<close>

definition log_text :: "string \<Rightarrow> string list \<Rightarrow> string + string list" where
  "log_text t seen = Inr (seen @ [t])"

definition logging_agent :: "string list robin_agent" where
  "logging_agent =
     \<lparr>on_text = Some log_text, on_tool_use = None, on_complete = None,
      model = ''m'', session_id = None, agent_tools_used = [], mcp_server = False\<rparr>"

definition sample_config :: config where
  "sample_config =
     \<lparr>default_model = ''default-model'', max_agent_turns = 25, robin_system_prompt = ''prompt''\<rparr>"

lemma consume_raised: "raised r \<noteq> None \<Longrightarrow> consume streaming loop_turn items r = r"
  by (cases items) simp_all

lemma consume_append:
  "consume streaming loop_turn (xs @ ys) r
     = consume streaming loop_turn ys (consume streaming loop_turn xs r)"
proof (induction xs arbitrary: r)
  case Nil
  then show ?case by simp
next
  case (Cons x xs)
  then show ?case
    by (cases "raised r = None") (simp_all add: consume_raised)
qed

text \<open>The callbacks of the agent are the same throughout a call.\<close>

definition callbacks_of ::
    "'s robin_agent \<Rightarrow>
       (string \<Rightarrow> 's \<Rightarrow> string + 's) option
       \<times> (string \<Rightarrow> tool_input \<Rightarrow> 's \<Rightarrow> string + 's) option
       \<times> (investigation_result \<Rightarrow> 's \<Rightarrow> string + 's) option" where
  "callbacks_of agent = (on_text agent, on_tool_use agent, on_complete agent)"

lemma callbacks_call_back: "callbacks_of (run_agent (call_back cb r)) = callbacks_of (run_agent r)"
  by (auto simp: call_back_def split: option.splits sum.splits)

lemma callbacks_add_text:
  "callbacks_of (run_agent (add_text streaming t r)) = callbacks_of (run_agent r)"
  by (simp add: add_text_def Let_def callbacks_call_back)

lemma callbacks_handle_block:
  "callbacks_of (run_agent (handle_block streaming b r)) = callbacks_of (run_agent r)"
  by (cases b) (simp_all add: callbacks_add_text callbacks_call_back Let_def, simp add: callbacks_of_def)

lemma callbacks_handle_blocks:
  "callbacks_of (run_agent (handle_blocks streaming bs r)) = callbacks_of (run_agent r)"
  by (induction bs arbitrary: r) (simp_all add: callbacks_handle_block)

lemma callbacks_capture:
  "callbacks_of (run_agent (capture_final_result streaming res r)) = callbacks_of (run_agent r)"
  by (cases res) (simp_all add: capture_final_result_def callbacks_add_text)

lemma callbacks_handle_message:
  "callbacks_of (run_agent (handle_message streaming m r)) = callbacks_of (run_agent r)"
proof (cases m)
  case (InitMessage d)
  then show ?thesis
    by (cases d) (simp_all add: callbacks_of_def)
next
  case (AssistantMessage bs)
  then show ?thesis
    by (simp add: callbacks_handle_blocks)
next
  case (ResultMessage res d n)
  then show ?thesis
    by (simp add: Let_def callbacks_call_back callbacks_capture)
next
  case OtherMessage
  then show ?thesis by simp
qed

lemma callbacks_handle_item:
  "callbacks_of (run_agent (handle_item streaming loop_turn item r)) = callbacks_of (run_agent r)"
  by (cases item) (simp_all add: callbacks_handle_message)

lemma callbacks_consume:
  "callbacks_of (run_agent (consume streaming loop_turn items r)) = callbacks_of (run_agent r)"
  by (induction items arbitrary: r) (simp_all add: callbacks_handle_item)

lemma handle_result_message:
  assumes "raised r = None" and "t \<noteq> []"
  shows "let r' = handle_message streaming (ResultMessage (Some t) d n) r;
             dup = sublist t (full_response r);
             res = \<lparr>res_text = full_response r', res_session_id = session_id (run_agent r),
                    res_duration_ms = d, res_num_turns = n,
                    res_tools_used = agent_tools_used (run_agent r)\<rparr>;
             complete = (\<lambda>c1. case on_complete (run_agent r) of
                                None \<Rightarrow> (c1, None)
                              | Some g \<Rightarrow> (case g res c1 of
                                            Inl e \<Rightarrow> (c1, Some e)
                                          | Inr c2 \<Rightarrow> (c2, None)));
             text_call = (if dup then Inr (client r)
                          else case on_text (run_agent r) of
                                 None \<Rightarrow> Inr (client r)
                               | Some f \<Rightarrow> f t (client r))
         in full_response r' = (if dup then full_response r else full_response r @ t)
            \<and> (client r', raised r') =
                 (case text_call of Inl e \<Rightarrow> (client r, Some e) | Inr c1 \<Rightarrow> complete c1)
            \<and> yielded r' =
                 (if dup \<or> \<not> streaming then yielded r
                  else case text_call of Inl e \<Rightarrow> yielded r | Inr c1 \<Rightarrow> yielded r @ [t])
            \<and> run_agent r' = run_agent r"
  using assms
  by (auto simp: Let_def capture_final_result_def add_text_def call_back_def
        split: option.splits sum.splits)

lemma consume_single:
  "raised r = None \<Longrightarrow>
     consume streaming loop_turn [Message m] r = handle_message streaming m r"
  by simp

lemma investigate_run:
  "snd (investigate cfg loop_turn agent q streaming items c) =
     (let r = consume streaming loop_turn items
                \<lparr>run_agent = snd (build_options cfg (agent\<lparr>agent_tools_used := []\<rparr>)),
                 full_response = [], client = c, yielded = [], raised = None\<rparr>
      in if raised r = None \<and> \<not> streaming then r\<lparr>yielded := yielded r @ [full_response r]\<rparr>
         else r)"
  by (simp add: investigate_def Let_def case_prod_beta)

text \<open>
  C6: take a call of \<open>investigate\<close> that has not raised on the stream \<open>pre\<close>, and let the
  terminal result message with a non-empty final text \<open>t\<close> follow.  The accumulated
  response stays as it was when \<open>t\<close> is a substring of it, and gets \<open>t\<close> appended
  otherwise.  The text callback is called with \<open>t\<close> exactly in the second case (when
  given), and \<open>t\<close> is yielded exactly in the second case when streaming (unless the
  callback raised).  The completion callback then receives the accumulated response.
\<close>

theorem investigate_final_result_text:
  assumes "raised (snd (investigate cfg loop_turn agent q streaming pre c)) = None"
    and "t \<noteq> []"
  shows "let before = snd (investigate cfg loop_turn agent q streaming pre c);
             after = snd (investigate cfg loop_turn agent q streaming
                            (pre @ [Message (ResultMessage (Some t) d n)]) c);
             dup = sublist t (full_response before);
             res = \<lparr>res_text = full_response after,
                    res_session_id = session_id (run_agent before),
                    res_duration_ms = d, res_num_turns = n,
                    res_tools_used = agent_tools_used (run_agent before)\<rparr>;
             complete = (\<lambda>c1. case on_complete agent of
                                None \<Rightarrow> (c1, None)
                              | Some g \<Rightarrow> (case g res c1 of
                                            Inl e \<Rightarrow> (c1, Some e)
                                          | Inr c2 \<Rightarrow> (c2, None)));
             text_call = (if dup then Inr (client before)
                          else case on_text agent of
                                 None \<Rightarrow> Inr (client before)
                               | Some f \<Rightarrow> f t (client before))
         in full_response after = (if dup then full_response before else full_response before @ t)
            \<and> (client after, raised after) =
                 (case text_call of Inl e \<Rightarrow> (client before, Some e) | Inr c1 \<Rightarrow> complete c1)
            \<and> (streaming \<longrightarrow>
                 yielded after =
                   (if dup then yielded before
                    else case text_call of
                           Inl e \<Rightarrow> yielded before
                         | Inr c1 \<Rightarrow> yielded before @ [t]))"
proof -
  let ?r0 = "\<lparr>run_agent = snd (build_options cfg (agent\<lparr>agent_tools_used := []\<rparr>)),
              full_response = [], client = c, yielded = [], raised = None\<rparr>"
  define R where "R = consume streaming loop_turn pre ?r0"
  define R' where "R' = handle_message streaming (ResultMessage (Some t) d n) R"
  have before: "snd (investigate cfg loop_turn agent q streaming pre c) =
      (if raised R = None \<and> \<not> streaming then R\<lparr>yielded := yielded R @ [full_response R]\<rparr>
       else R)"
    unfolding investigate_run Let_def R_def by (simp only:)
  with assms(1) have nr: "raised R = None"
    by (simp split: if_splits)
  have "consume streaming loop_turn (pre @ [Message (ResultMessage (Some t) d n)]) ?r0 = R'"
    unfolding consume_append R'_def R_def[symmetric] using nr by (rule consume_single)
  then have after: "snd (investigate cfg loop_turn agent q streaming
      (pre @ [Message (ResultMessage (Some t) d n)]) c) =
      (if raised R' = None \<and> \<not> streaming then R'\<lparr>yielded := yielded R' @ [full_response R']\<rparr>
       else R')"
    unfolding investigate_run Let_def by (simp only:)
  have "callbacks_of (run_agent R) = callbacks_of agent"
    unfolding R_def by (simp add: callbacks_consume) (simp add: callbacks_of_def build_options_def)
  then have cbs: "on_text (run_agent R) = on_text agent"
    "on_complete (run_agent R) = on_complete agent"
    by (simp_all add: callbacks_of_def)
  note step = handle_result_message[OF nr assms(2), of streaming d n,
      unfolded Let_def, folded R'_def, unfolded cbs]
  show ?thesis
  proof (cases streaming)
    case True
    with step show ?thesis
      unfolding before after Let_def by simp
  next
    case False
    with step nr show ?thesis
      unfolding before after Let_def
      by (auto split: option.splits sum.splits if_splits)
  qed
qed

text \<open>One streamed text block.\<close>

definition hello :: "stream_item list" where
  "hello = [Message (AssistantMessage [TextBlock ''Hello world''])]"

theorem investigate_final_result_text_witness:
  "full_response (snd (investigate sample_config id logging_agent ''q'' True
      (hello @ [Message (ResultMessage (Some ''world'') None None)]) [])) = ''Hello world''
   \<and> yielded (snd (investigate sample_config id logging_agent ''q'' True
      (hello @ [Message (ResultMessage (Some ''world'') None None)]) [])) = [''Hello world'']
   \<and> client (snd (investigate sample_config id logging_agent ''q'' True
      (hello @ [Message (ResultMessage (Some ''world'') None None)]) [])) = [''Hello world'']
   \<and> full_response (snd (investigate sample_config id logging_agent ''q'' True
      (hello @ [Message (ResultMessage (Some ''Bye'') None None)]) [])) = ''Hello world'' @ ''Bye''
   \<and> yielded (snd (investigate sample_config id logging_agent ''q'' True
      (hello @ [Message (ResultMessage (Some ''Bye'') None None)]) []))
       = [''Hello world'', ''Bye'']
   \<and> client (snd (investigate sample_config id logging_agent ''q'' True
      (hello @ [Message (ResultMessage (Some ''Bye'') None None)]) []))
       = [''Hello world'', ''Bye'']"
proof -
  have before: "snd (investigate sample_config id logging_agent ''q'' True hello []) =
      \<lparr>run_agent = logging_agent\<lparr>mcp_server := True\<rparr>, full_response = ''Hello world'',
       client = [''Hello world''], yielded = [''Hello world''], raised = None\<rparr>"
    by (simp add: investigate_def build_options_def hello_def add_text_def call_back_def
          logging_agent_def log_text_def)
  then have nr: "raised (snd (investigate sample_config id logging_agent ''q'' True hello []))
      = None"
    by simp
  have dup: "sublist ''world'' ''Hello world''" and fresh: "\<not> sublist ''Bye'' ''Hello world''"
    by (simp_all add: sublist_code)
  have cbs: "on_text logging_agent = Some log_text" "on_complete logging_agent = None"
    by (simp_all add: logging_agent_def)
  note a = investigate_final_result_text[OF nr, of "''world''" None None, unfolded Let_def before]
  note b = investigate_final_result_text[OF nr, of "''Bye''" None None, unfolded Let_def before]
  from a b dup fresh show ?thesis
    by (simp add: cbs log_text_def)
qed

subsection \<open>A reset session carries nothing forward (C8)\<close>

text \<open>
  C8: after \<open>reset_session\<close> the continuation token is \<open>None\<close> and the tool-use log is
  empty; the options built next, and those of the \<open>query\<close> the next \<open>investigate\<close> makes,
  have no \<open>resume\<close>; and the next \<open>investigate\<close> is the same whatever token and log the
  agent held before the reset.  Its accumulated text starts empty: on a stream with no
  message it ends empty.
\<close>

theorem reset_session_fresh:
  "session_id (reset_session agent) = None
   \<and> agent_tools_used (reset_session agent) = []
   \<and> resume (fst (build_options cfg (reset_session agent))) = None
   \<and> resume (snd (fst (investigate cfg loop_turn (reset_session agent) q stream items c))) = None
   \<and> investigate cfg loop_turn
        (reset_session (agent\<lparr>session_id := sid, agent_tools_used := used\<rparr>)) q stream items c
       = investigate cfg loop_turn (reset_session agent) q stream items c
   \<and> full_response (snd (investigate cfg loop_turn (reset_session agent) q True [] c)) = []
   \<and> agent_tools_used (run_agent
        (snd (investigate cfg loop_turn (reset_session agent) q True [] c))) = []"
  by (simp add: reset_session_def build_options_def investigate_def Let_def)

text \<open>Before the reset the token is resumed; after it, it is not.\<close>

theorem reset_session_fresh_witness:
  "resume (fst (build_options sample_config (logging_agent\<lparr>session_id := Some ''token''\<rparr>)))
     = Some ''token''
   \<and> resume (fst (build_options sample_config
         (reset_session (logging_agent\<lparr>session_id := Some ''token''\<rparr>)))) = None
   \<and> session_id (reset_session (logging_agent\<lparr>session_id := Some ''token''\<rparr>)) = None"
  using reset_session_fresh[of "logging_agent\<lparr>session_id := Some ''token''\<rparr>" sample_config]
  by (simp add: build_options_def)

text \<open>
  The whole call on two streams: a final result text that repeats streamed text is not
  yielded again, a new one is.
\<close>

lemma investigate_final_text_example:
  "yielded (snd (investigate sample_config id logging_agent ''q'' True
      [Message (AssistantMessage [TextBlock ''Hello world'']),
       Message (ResultMessage (Some ''world'') None None)] [])) = [''Hello world'']
   \<and> yielded (snd (investigate sample_config id logging_agent ''q'' True
      [Message (AssistantMessage [TextBlock ''Hello world'']),
       Message (ResultMessage (Some ''Bye'') None None)] [])) = [''Hello world'', ''Bye'']"
  by (simp add: investigate_def build_options_def logging_agent_def add_text_def call_back_def
        capture_final_result_def log_text_def sublist_code)

section \<open>AgentService (backend/app/services/agent_service.py)\<close>

subsection \<open>The event stream\<close>

text \<open>
  The events of backend/app/models/investigation.py, with the fields of their data
  classes.  The id of a tool invocation is a non-empty string in the source; here it is
  the number of the invocation on its stream.
\<close>

datatype event =
    TextEvent string
  | ToolStartEvent nat string tool_input
  | ToolEndEvent nat string int
  | SubAgentStartEvent string
  | CompleteEvent string "string option" "int option" "int option"
  | ErrorEvent string string

text \<open>
  Modelled from the spec: \<open>SSEStreamManager\<close> (backend/app/sse/stream.py is not among the
  sources).  Sections 3 and 6: the event sink receives the events in the order they are
  emitted; the id of a tool invocation is generated when it starts.  Each \<open>emit_...\<close>
  appends its event without suspending; \<open>emit_error\<close> builds \<open>ErrorEventData\<close> from the
  message alone, so its code is the default \<open>INVESTIGATION_ERROR\<close>.
\<close>

record sse_stream =
  events :: "event list"
  next_tool_id :: nat

definition emit :: "event \<Rightarrow> sse_stream \<Rightarrow> sse_stream" where
  "emit e s = s\<lparr>events := events s @ [e]\<rparr>"

definition emit_text :: "string \<Rightarrow> sse_stream \<Rightarrow> sse_stream" where
  "emit_text t s = emit (TextEvent t) s"

definition emit_tool_start :: "string \<Rightarrow> tool_input \<Rightarrow> sse_stream \<Rightarrow> nat \<times> sse_stream" where
  "emit_tool_start name input_data s =
     (next_tool_id s,
      (emit (ToolStartEvent (next_tool_id s) name input_data) s)
        \<lparr>next_tool_id := next_tool_id s + 1\<rparr>)"

definition emit_tool_end :: "nat \<Rightarrow> string \<Rightarrow> int \<Rightarrow> sse_stream \<Rightarrow> sse_stream" where
  "emit_tool_end tool_id name duration s = emit (ToolEndEvent tool_id name duration) s"

definition emit_subagent_start :: "string \<Rightarrow> sse_stream \<Rightarrow> sse_stream" where
  "emit_subagent_start worker s = emit (SubAgentStartEvent worker) s"

definition emit_complete ::
    "string \<Rightarrow> string option \<Rightarrow> int option \<Rightarrow> int option \<Rightarrow> sse_stream \<Rightarrow> sse_stream" where
  "emit_complete t sid duration turns s = emit (CompleteEvent t sid duration turns) s"

definition emit_error :: "string \<Rightarrow> sse_stream \<Rightarrow> sse_stream" where
  "emit_error msg s = emit (ErrorEvent msg ''INVESTIGATION_ERROR'') s"

subsection \<open>The service and the event loop\<close>

text \<open>
  What \<open>asyncio.create_task\<close> is given by the callbacks: a coroutine that runs when the
  event loop next gets control, not when it is created.
\<close>

datatype task =
    EmitText string
  | EmitToolEnd nat string int
  | EmitStart string tool_input
  | EmitComplete string "string option" "int option" "int option"

text \<open>
  The fields of \<open>AgentService\<close> (the agent apart, which is passed beside it), and with
  them what its callbacks act on: the stream manager, the tasks created and not yet run,
  in creation order, and the number of times \<open>time.time()\<close> has been read.  The clock
  itself is a parameter: \<open>clock n\<close> is the \<open>n\<close>-th reading, in seconds.
\<close>

record service =
  current_tool_id :: "nat option"
  tool_start_time :: real
  svc_tools_used :: "(string \<times> tool_input) list"
  svc_full_response :: string
  svc_result :: "investigation_result option"
  stream :: sse_stream
  pending :: "task list"
  clock_reads :: nat

text \<open>Python's \<open>int(x)\<close> of a float: truncation towards zero.\<close>

definition py_int :: "real \<Rightarrow> int" where
  "py_int x = (if x \<ge> 0 then \<lfloor>x\<rfloor> else \<lceil>x\<rceil>)"

definition create_task :: "task \<Rightarrow> service \<Rightarrow> service" where
  "create_task t svc = svc\<lparr>pending := pending svc @ [t]\<rparr>"

text \<open>
  \<open>int((time.time() - self._tool_start_time) * 1000)\<close>, reading the clock once.  The
  difference and the product are taken over the reals; the source computes them in double
  precision, whose rounding can move the truncated duration by one millisecond.
\<close>

definition elapsed_ms :: "(nat \<Rightarrow> real) \<Rightarrow> service \<Rightarrow> int \<times> service" where
  "elapsed_ms clock svc =
     (py_int ((clock (clock_reads svc) - tool_start_time svc) * 1000),
      svc\<lparr>clock_reads := clock_reads svc + 1\<rparr>)"

definition svc_on_text :: "string \<Rightarrow> service \<Rightarrow> string + service" where
  "svc_on_text t svc =
     Inr (create_task (EmitText t) (svc\<lparr>svc_full_response := svc_full_response svc @ t\<rparr>))"

text \<open>
  \<open>_on_tool_use\<close>.  \<open>self._tools_used[-1]\<close> raises \<open>IndexError\<close> on an empty list.
\<close>

definition start_new_tool :: "(nat \<Rightarrow> real) \<Rightarrow> string \<Rightarrow> tool_input \<Rightarrow> service \<Rightarrow> service" where
  "start_new_tool clock name input_data svc =
     create_task (EmitStart name input_data)
       (svc\<lparr>tool_start_time := clock (clock_reads svc),
            clock_reads := clock_reads svc + 1,
            svc_tools_used := svc_tools_used svc @ [(name, input_data)]\<rparr>)"

definition svc_on_tool_use ::
    "(nat \<Rightarrow> real) \<Rightarrow> string \<Rightarrow> tool_input \<Rightarrow> service \<Rightarrow> string + service" where
  "svc_on_tool_use clock name input_data svc =
     (case current_tool_id svc of
        None \<Rightarrow> Inr (start_new_tool clock name input_data svc)
      | Some tool_id \<Rightarrow>
          (case elapsed_ms clock svc of
             (duration, svc1) \<Rightarrow>
               if svc_tools_used svc1 = [] then Inl ''list index out of range''
               else
                 Inr (start_new_tool clock name input_data
                        (create_task
                           (EmitToolEnd tool_id (fst (last (svc_tools_used svc1))) duration)
                           svc1))))"

definition svc_on_complete ::
    "(nat \<Rightarrow> real) \<Rightarrow> investigation_result \<Rightarrow> service \<Rightarrow> string + service" where
  "svc_on_complete clock res svc =
     (let svc1 = svc\<lparr>svc_result := Some res\<rparr>;
          svc2 = (case current_tool_id svc1 of
                    None \<Rightarrow> svc1
                  | Some tool_id \<Rightarrow>
                      (case elapsed_ms clock svc1 of
                         (duration, svc') \<Rightarrow>
                           create_task
                             (EmitToolEnd tool_id
                                (if svc_tools_used svc' \<noteq> [] then fst (last (svc_tools_used svc'))
                                 else ''unknown'')
                                duration)
                             svc'))
      in Inr (create_task
                (EmitComplete (res_text res) (res_session_id res) (res_duration_ms res)
                   (res_num_turns res))
                svc2))"

text \<open>
  \<open>input_data.get("agent_types", [])\<close> as the loop of \<open>emit_start\<close> iterates it: a list's
  elements, a string's characters; \<open>None\<close> cannot be iterated, and the task ends there.
\<close>

fun agent_types_of :: "tool_input \<Rightarrow> string list" where
  "agent_types_of input_data =
     (case map_of input_data ''agent_types'' of
        None \<Rightarrow> []
      | Some (JList xs) \<Rightarrow> xs
      | Some (JStr s) \<Rightarrow> map (\<lambda>c. [c]) s
      | Some JNull \<Rightarrow> [])"

definition run_task :: "task \<Rightarrow> service \<Rightarrow> service" where
  "run_task t svc =
     (case t of
        EmitText s \<Rightarrow> svc\<lparr>stream := emit_text s (stream svc)\<rparr>
      | EmitToolEnd tool_id name duration \<Rightarrow>
          svc\<lparr>stream := emit_tool_end tool_id name duration (stream svc)\<rparr>
      | EmitStart name input_data \<Rightarrow>
          (case emit_tool_start name input_data (stream svc) of
             (tool_id, s1) \<Rightarrow>
               svc\<lparr>current_tool_id := Some tool_id,
                   stream := (if name = ''mcp__robin__delegate_analysis''
                              then fold emit_subagent_start (agent_types_of input_data) s1
                              else s1)\<rparr>)
      | EmitComplete s sid duration turns \<Rightarrow>
          svc\<lparr>stream := emit_complete s sid duration turns (stream svc)\<rparr>)"

text \<open>A turn of the event loop: every task created so far runs, in creation order.\<close>

definition run_pending :: "service \<Rightarrow> service" where
  "run_pending svc = fold run_task (pending svc) (svc\<lparr>pending := []\<rparr>)"

definition new_service :: "service" where
  "new_service =
     \<lparr>current_tool_id = None, tool_start_time = 0, svc_tools_used = [],
      svc_full_response = [], svc_result = None,
      stream = \<lparr>events = [], next_tool_id = 0\<rparr>, pending = [], clock_reads = 0\<rparr>"

text \<open>
  The agent \<open>AgentService.__init__\<close> creates: its callbacks are the service's own, its
  model the one the service settled on.
\<close>

definition service_agent :: "config \<Rightarrow> (nat \<Rightarrow> real) \<Rightarrow> string \<Rightarrow> service robin_agent" where
  "service_agent cfg clock svc_model =
     new_agent cfg
       \<lparr>on_text = Some svc_on_text,
        on_tool_use = Some (svc_on_tool_use clock),
        on_complete = Some (svc_on_complete clock)\<rparr>
       (Some svc_model)"

text \<open>
  \<open>AgentService.investigate\<close>: what it returns or raises, the service and the agent after
  it, and the \<open>query\<close> it made.  While the agent's coroutine is suspended the event loop
  runs the pending tasks.
\<close>

record outcome =
  returned :: "string + investigation_result"
  service_after :: service
  agent_after :: "service robin_agent"
  queries :: "(string \<times> claude_code_options) list"

definition svc_investigate ::
    "config \<Rightarrow> service \<Rightarrow> service robin_agent \<Rightarrow> string \<Rightarrow> stream_item list \<Rightarrow> outcome" where
  "svc_investigate cfg svc agent query_text items =
     (case investigate cfg run_pending agent query_text True items svc of
        (call, r) \<Rightarrow>
          (case raised r of
             None \<Rightarrow>
               \<lparr>returned = Inr (case svc_result (client r) of
                                  Some res \<Rightarrow> res
                                | None \<Rightarrow> \<lparr>res_text = svc_full_response (client r),
                                            res_session_id = None, res_duration_ms = None,
                                            res_num_turns = None, res_tools_used = []\<rparr>),
                service_after = client r, agent_after = run_agent r, queries = [call]\<rparr>
           | Some e \<Rightarrow>
               \<lparr>returned = Inl e,
                service_after = (client r)\<lparr>stream := emit_error e (stream (client r))\<rparr>,
                agent_after = run_agent r, queries = [call]\<rparr>))"

subsection \<open>Tool lifecycle (C1)\<close>

definition tick :: "nat \<Rightarrow> real" where
  "tick n = real n"

definition sample_service_agent :: "service robin_agent" where
  "sample_service_agent = service_agent sample_config tick ''model''"

text \<open>
  Three tool uses announced by one assistant message, then (after the event loop has
  run) the terminal result message.
\<close>

definition three_at_once :: "stream_item list" where
  "three_at_once =
     [Message (AssistantMessage
        [ToolUseBlock ''a'' [], ToolUseBlock ''b'' [], ToolUseBlock ''c'' []]),
      Suspend,
      Message (ResultMessage None None None)]"

text \<open>The same three tool uses, one message each, the event loop running after each.\<close>

definition three_in_turn :: "stream_item list" where
  "three_in_turn =
     [Message (AssistantMessage [ToolUseBlock ''a'' []]), Suspend,
      Message (AssistantMessage [ToolUseBlock ''b'' []]), Suspend,
      Message (AssistantMessage [ToolUseBlock ''c'' []]), Suspend,
      Message (ResultMessage None None None)]"

definition events_of :: "stream_item list \<Rightarrow> event list" where
  "events_of items =
     events (stream (run_pending (service_after
       (svc_investigate sample_config new_service sample_service_agent ''q'' items))))"

lemmas service_simps =
  svc_investigate_def investigate_def build_options_def service_agent_def new_agent_def
  new_service_def add_text_def call_back_def capture_final_result_def
  svc_on_text_def svc_on_tool_use_def svc_on_complete_def start_new_tool_def create_task_def
  elapsed_ms_def run_pending_def run_task_def emit_def emit_text_def emit_tool_start_def
  emit_tool_end_def emit_subagent_start_def emit_complete_def emit_error_def
  py_int_def tick_def sample_config_def

text \<open>
  C1 at three tool uses announced together: the callbacks run one after the other with no
  turn of the event loop between them, so \<open>_current_tool_id\<close>, which only the scheduled
  \<open>emit_start\<close> sets, is still \<open>None\<close> at the second and third tool use and no \<open>ToolEnd\<close>
  is scheduled for the first and second tool.  Three \<open>ToolStart\<close> events and one
  \<open>ToolEnd\<close> event are emitted.
\<close>

theorem tool_lifecycle_three_at_once:
  "events_of three_at_once =
     [ToolStartEvent 0 ''a'' [], ToolStartEvent 1 ''b'' [], ToolStartEvent 2 ''c'' [],
      ToolEndEvent 2 ''c'' 1000, CompleteEvent [] None None None]"
  by (simp add: events_of_def three_at_once_def sample_service_agent_def service_simps Let_def)

text \<open>
  When the event loop runs after each tool use, every tool is closed before the next
  starts.
\<close>

lemma tool_lifecycle_three_in_turn:
  "events_of three_in_turn =
     [ToolStartEvent 0 ''a'' [], ToolEndEvent 0 ''a'' 1000,
      ToolStartEvent 1 ''b'' [], ToolEndEvent 1 ''b'' 1000,
      ToolStartEvent 2 ''c'' [], ToolEndEvent 2 ''c'' 1000,
      CompleteEvent [] None None None]"
  by (simp add: events_of_def three_in_turn_def sample_service_agent_def service_simps Let_def)

subsection \<open>Failure of the investigation (C7)\<close>

fun is_error :: "event \<Rightarrow> bool" where
  "is_error (ErrorEvent msg code) = True"
| "is_error e = False"

definition error_events :: "service \<Rightarrow> event list" where
  "error_events svc = filter is_error (events (stream svc))"

text \<open>The callbacks of a run are those of the service.\<close>

definition serves :: "(nat \<Rightarrow> real) \<Rightarrow> service robin_agent \<Rightarrow> bool" where
  "serves clock agent \<longleftrightarrow>
     on_text agent = Some svc_on_text
     \<and> on_tool_use agent = Some (svc_on_tool_use clock)
     \<and> on_complete agent = Some (svc_on_complete clock)"

lemma error_events_fold_subagent:
  "filter is_error (events (fold emit_subagent_start xs s)) = filter is_error (events s)"
  by (induction xs arbitrary: s) (auto simp: emit_subagent_start_def emit_def)

lemma error_events_run_task: "error_events (run_task t svc) = error_events svc"
  by (cases t)
     (auto simp: run_task_def error_events_def emit_text_def emit_tool_end_def
        emit_tool_start_def emit_complete_def emit_def error_events_fold_subagent)

lemma error_events_fold_run_task: "error_events (fold run_task ts svc) = error_events svc"
  by (induction ts arbitrary: svc) (auto simp: error_events_run_task)

lemma error_events_run_pending: "error_events (run_pending svc) = error_events svc"
  using error_events_fold_run_task[of "pending svc" "svc\<lparr>pending := []\<rparr>"]
  by (simp add: run_pending_def error_events_def)

lemma error_events_on_text: "svc_on_text t svc = Inr svc' \<Longrightarrow> error_events svc' = error_events svc"
  by (auto simp: svc_on_text_def create_task_def error_events_def)

lemma error_events_on_tool_use:
  "svc_on_tool_use clock name input_data svc = Inr svc' \<Longrightarrow> error_events svc' = error_events svc"
  by (auto simp: svc_on_tool_use_def start_new_tool_def create_task_def elapsed_ms_def
        error_events_def split: option.splits if_splits)

lemma error_events_on_complete:
  "svc_on_complete clock res svc = Inr svc' \<Longrightarrow> error_events svc' = error_events svc"
  by (auto simp: svc_on_complete_def create_task_def elapsed_ms_def error_events_def Let_def
        split: option.splits)

text \<open>What a step of the run keeps: the service's callbacks and its \<open>Error\<close> events.\<close>

definition kept :: "(nat \<Rightarrow> real) \<Rightarrow> service run \<Rightarrow> service run \<Rightarrow> bool" where
  "kept clock r r' \<longleftrightarrow>
     serves clock (run_agent r') \<and> error_events (client r') = error_events (client r)"

lemma kept_refl: "serves clock (run_agent r) \<Longrightarrow> kept clock r r"
  by (simp add: kept_def)

lemma kept_add_text:
  "serves clock (run_agent r) \<Longrightarrow> kept clock r (add_text streaming t r)"
  by (auto simp: kept_def serves_def add_text_def call_back_def Let_def
        dest: error_events_on_text split: sum.splits)

lemma kept_handle_block:
  "serves clock (run_agent r) \<Longrightarrow> kept clock r (handle_block streaming b r)"
proof (cases b)
  case (TextBlock t)
  then show "serves clock (run_agent r) \<Longrightarrow> ?thesis"
    by (simp add: kept_add_text)
next
  case (ToolUseBlock n i)
  then show "serves clock (run_agent r) \<Longrightarrow> ?thesis"
    by (auto simp: kept_def serves_def call_back_def Let_def
          dest: error_events_on_tool_use split: sum.splits)
next
  case OtherBlock
  then show "serves clock (run_agent r) \<Longrightarrow> ?thesis"
    by (simp add: kept_def)
qed

lemma kept_trans: "kept clock r r' \<Longrightarrow> kept clock r' r'' \<Longrightarrow> kept clock r r''"
  by (simp add: kept_def)

lemma kept_handle_blocks:
  "serves clock (run_agent r) \<Longrightarrow> kept clock r (handle_blocks streaming bs r)"
proof (induction bs arbitrary: r)
  case Nil
  then show ?case by (simp add: kept_def)
next
  case (Cons b bs)
  show ?case
  proof (cases "raised r = None")
    case True
    from Cons.prems have step: "kept clock r (handle_block streaming b r)"
      by (rule kept_handle_block)
    then have "serves clock (run_agent (handle_block streaming b r))"
      by (simp add: kept_def)
    then have "kept clock (handle_block streaming b r)
        (handle_blocks streaming bs (handle_block streaming b r))"
      by (rule Cons.IH)
    with step True show ?thesis
      by (auto intro: kept_trans)
  next
    case False
    with Cons.prems show ?thesis by (simp add: kept_def)
  qed
qed

lemma kept_capture:
  "serves clock (run_agent r) \<Longrightarrow> kept clock r (capture_final_result streaming res r)"
  by (cases res) (simp_all add: capture_final_result_def kept_add_text kept_refl)

lemma kept_handle_message:
  "serves clock (run_agent r) \<Longrightarrow> kept clock r (handle_message streaming m r)"
proof (cases m)
  case (InitMessage d)
  then show "serves clock (run_agent r) \<Longrightarrow> ?thesis"
    by (cases d) (auto simp: kept_def serves_def)
next
  case (AssistantMessage bs)
  then show "serves clock (run_agent r) \<Longrightarrow> ?thesis"
    by (simp add: kept_handle_blocks)
next
  case (ResultMessage res d n)
  assume s: "serves clock (run_agent r)"
  then have c: "kept clock r (capture_final_result streaming res r)"
    by (rule kept_capture)
  then show ?thesis
    unfolding ResultMessage
    by (auto simp: kept_def serves_def call_back_def Let_def
          dest: error_events_on_complete split: sum.splits)
next
  case OtherMessage
  then show "serves clock (run_agent r) \<Longrightarrow> ?thesis"
    by (simp add: kept_def)
qed

lemma kept_handle_item:
  "serves clock (run_agent r) \<Longrightarrow> kept clock r (handle_item streaming run_pending item r)"
proof (cases item)
  case (Message m)
  then show "serves clock (run_agent r) \<Longrightarrow> ?thesis"
    by (simp add: kept_handle_message)
next
  case Suspend
  then show "serves clock (run_agent r) \<Longrightarrow> ?thesis"
    by (simp add: kept_def error_events_run_pending)
next
  case (Raise e)
  then show "serves clock (run_agent r) \<Longrightarrow> ?thesis"
    by (simp add: kept_def)
qed

lemma kept_consume:
  "serves clock (run_agent r) \<Longrightarrow> kept clock r (consume streaming run_pending items r)"
proof (induction items arbitrary: r)
  case Nil
  then show ?case by (simp add: kept_def)
next
  case (Cons item items)
  show ?case
  proof (cases "raised r = None")
    case True
    from Cons.prems have step: "kept clock r (handle_item streaming run_pending item r)"
      by (rule kept_handle_item)
    then have "serves clock (run_agent (handle_item streaming run_pending item r))"
      by (simp add: kept_def)
    then have "kept clock (handle_item streaming run_pending item r)
        (consume streaming run_pending items (handle_item streaming run_pending item r))"
      by (rule Cons.IH)
    with step True show ?thesis
      by (auto intro: kept_trans)
  next
    case False
    with Cons.prems show ?thesis by (simp add: kept_def)
  qed
qed

lemma error_events_investigate:
  assumes "serves clock agent"
  shows "error_events (client (snd (investigate cfg run_pending agent q True items svc)))
           = error_events svc"
proof -
  let ?r0 = "\<lparr>run_agent = snd (build_options cfg (agent\<lparr>agent_tools_used := []\<rparr>)),
              full_response = [], client = svc, yielded = [], raised = None\<rparr>"
  from assms have "serves clock (run_agent ?r0)"
    by (simp add: serves_def build_options_def)
  then have "kept clock ?r0 (consume True run_pending items ?r0)"
    by (rule kept_consume)
  then show ?thesis
    by (simp add: investigate_def kept_def build_options_def Let_def)
qed

text \<open>A text block, then the stream raises before the event loop has run.\<close>

definition text_then_failure :: "stream_item list" where
  "text_then_failure = [Message (AssistantMessage [TextBlock ''partial'']), Raise ''boom'']"

text \<open>
  C7, as stated, fails in its second part: the \<open>Error\<close> event is not the last event of the
  session.  The emission of the text was scheduled before the failure and is not
  cancelled; it runs at the next turn of the event loop, after the \<open>Error\<close> event.
\<close>

theorem error_then_scheduled_text:
  "returned (svc_investigate sample_config new_service sample_service_agent ''q''
      text_then_failure) = Inl ''boom''
   \<and> events (stream (service_after (svc_investigate sample_config new_service
        sample_service_agent ''q'' text_then_failure)))
       = [ErrorEvent ''boom'' ''INVESTIGATION_ERROR'']
   \<and> events_of text_then_failure
       = [ErrorEvent ''boom'' ''INVESTIGATION_ERROR'', TextEvent ''partial'']"
  by (simp add: events_of_def text_then_failure_def sample_service_agent_def service_simps
        Let_def)

text \<open>
  C7, amended: when the run of the agent raises \<open>e\<close>, \<open>AgentService.investigate\<close> raises
  \<open>e\<close> in turn after one call of \<open>query\<close> (no retry), and appends to the events emitted
  so far exactly one event, \<open>Error\<close> with the message \<open>e\<close> and the code
  \<open>INVESTIGATION_ERROR\<close>; it is the only \<open>Error\<close> event the call adds to the stream.  The
  tasks scheduled before the failure stay scheduled.
\<close>

theorem svc_investigate_failure:
  assumes "serves clock agent"
    and "raised (snd (investigate cfg run_pending agent q True items svc)) = Some e"
  shows "returned (svc_investigate cfg svc agent q items) = Inl e
     \<and> events (stream (service_after (svc_investigate cfg svc agent q items)))
         = events (stream (client (snd (investigate cfg run_pending agent q True items svc))))
             @ [ErrorEvent e ''INVESTIGATION_ERROR'']
     \<and> error_events (service_after (svc_investigate cfg svc agent q items))
         = error_events svc @ [ErrorEvent e ''INVESTIGATION_ERROR'']
     \<and> pending (service_after (svc_investigate cfg svc agent q items))
         = pending (client (snd (investigate cfg run_pending agent q True items svc)))
     \<and> queries (svc_investigate cfg svc agent q items)
         = [fst (investigate cfg run_pending agent q True items svc)]"
proof -
  obtain call r where run: "investigate cfg run_pending agent q True items svc = (call, r)"
    by (cases "investigate cfg run_pending agent q True items svc")
  with assms(2) have raised: "raised r = Some e"
    by simp
  have out: "svc_investigate cfg svc agent q items =
      \<lparr>returned = Inl e,
       service_after = (client r)\<lparr>stream := emit_error e (stream (client r))\<rparr>,
       agent_after = run_agent r, queries = [call]\<rparr>"
    by (simp add: svc_investigate_def run raised)
  have "error_events (client r) = error_events svc"
    using error_events_investigate[OF assms(1), of cfg q items svc] run by simp
  then have errs: "error_events ((client r)\<lparr>stream := emit_error e (stream (client r))\<rparr>)
      = error_events svc @ [ErrorEvent e ''INVESTIGATION_ERROR'']"
    by (simp add: error_events_def emit_error_def emit_def)
  show ?thesis
    unfolding out run using errs
    by (simp add: emit_error_def emit_def)
qed

theorem svc_investigate_failure_witness:
  "returned (svc_investigate sample_config new_service sample_service_agent ''q''
      text_then_failure) = Inl ''boom''
   \<and> error_events (service_after (svc_investigate sample_config new_service
        sample_service_agent ''q'' text_then_failure))
       = [ErrorEvent ''boom'' ''INVESTIGATION_ERROR'']
   \<and> pending (service_after (svc_investigate sample_config new_service
        sample_service_agent ''q'' text_then_failure)) = [EmitText ''partial'']"
proof -
  have s: "serves tick sample_service_agent"
    by (simp add: serves_def sample_service_agent_def service_agent_def new_agent_def)
  have r: "raised (snd (investigate sample_config run_pending sample_service_agent ''q'' True
      text_then_failure new_service)) = Some ''boom''"
    by (simp add: text_then_failure_def sample_service_agent_def service_simps Let_def)
  have p: "pending (client (snd (investigate sample_config run_pending sample_service_agent
      ''q'' True text_then_failure new_service))) = [EmitText ''partial'']"
    by (simp add: text_then_failure_def sample_service_agent_def service_simps Let_def)
  have e0: "error_events new_service = []"
    by (simp add: error_events_def new_service_def)
  from svc_investigate_failure[OF s r] show ?thesis
    by (simp add: p e0)
qed

subsection \<open>Tool lifecycle when the event loop runs between the signals\<close>

fun is_tool_start :: "event \<Rightarrow> bool" where
  "is_tool_start (ToolStartEvent tool_id name input_data) = True"
| "is_tool_start e = False"

fun is_tool_end :: "event \<Rightarrow> bool" where
  "is_tool_end (ToolEndEvent tool_id name duration) = True"
| "is_tool_end e = False"

definition tool_events :: "service \<Rightarrow> event list" where
  "tool_events svc = filter (\<lambda>e. is_tool_start e \<or> is_tool_end e) (events (stream svc))"

text \<open>Every \<open>ToolStart\<close> is followed at once by the \<open>ToolEnd\<close> of the same id and tool.\<close>

fun paired :: "event list \<Rightarrow> bool" where
  "paired [] = True"
| "paired (ToolStartEvent i n input_data # ToolEndEvent j m duration # rest) =
     (i = j \<and> n = m \<and> paired rest)"
| "paired es = False"

text \<open>Tool uses announced one per message, the event loop running after each.\<close>

definition in_turn :: "(string \<times> tool_input) list \<Rightarrow> stream_item list" where
  "in_turn uses =
     concat (map (\<lambda>(n, i). [Message (AssistantMessage [ToolUseBlock n i]), Suspend]) uses)"

text \<open>
  The state between two signals after \<open>k\<close> tool uses: nothing is pending, and the tool
  events so far are \<open>k - 1\<close> done_pairs pairs followed, when \<open>k > 0\<close>, by the \<open>ToolStart\<close> of the
  tool \<open>_current_tool_id\<close> names, the last of \<open>_tools_used\<close>.
\<close>

definition tracked :: "nat \<Rightarrow> service \<Rightarrow> bool" where
  "tracked k svc \<longleftrightarrow>
     pending svc = []
     \<and> (if k = 0 then current_tool_id svc = None \<and> tool_events svc = []
         else \<exists>done_pairs tool_id input_data.
                current_tool_id svc = Some tool_id
                \<and> svc_tools_used svc \<noteq> []
                \<and> tool_events svc =
                    done_pairs @ [ToolStartEvent tool_id (fst (last (svc_tools_used svc))) input_data]
                \<and> paired done_pairs
                \<and> length done_pairs = 2 * (k - 1))"

lemma paired_append:
  "paired done_pairs \<Longrightarrow> paired (done_pairs @ [ToolStartEvent i n input_data, ToolEndEvent i n d])"
  by (induction done_pairs rule: paired.induct) auto

lemma paired_counts:
  "paired es \<Longrightarrow>
     2 * length (filter is_tool_start es) = length es
     \<and> 2 * length (filter is_tool_end es) = length es"
  by (induction es rule: paired.induct) auto

lemma tool_events_fold_subagent:
  "filter (\<lambda>e. is_tool_start e \<or> is_tool_end e) (events (fold emit_subagent_start xs s))
     = filter (\<lambda>e. is_tool_start e \<or> is_tool_end e) (events s)"
  by (induction xs arbitrary: s) (auto simp: emit_subagent_start_def emit_def)

lemma tracked_tool_use:
  assumes "tracked k svc"
  shows "\<exists>svc1. svc_on_tool_use clock n i svc = Inr svc1 \<and> tracked (Suc k) (run_pending svc1)"
proof (cases "k = 0")
  case True
  with assms have "current_tool_id svc = None" "tool_events svc = []" "pending svc = []"
    by (simp_all add: tracked_def)
  with True show ?thesis
    by (simp add: svc_on_tool_use_def start_new_tool_def create_task_def run_pending_def
          run_task_def emit_tool_start_def emit_def tracked_def tool_events_def
          tool_events_fold_subagent)
next
  case False
  with assms obtain done_pairs tool_id input_data where
    cur: "current_tool_id svc = Some tool_id" and used: "svc_tools_used svc \<noteq> []"
    and ev: "tool_events svc =
        done_pairs @ [ToolStartEvent tool_id (fst (last (svc_tools_used svc))) input_data]"
    and pc: "paired done_pairs" and len: "length done_pairs = 2 * (k - 1)"
    and pend: "pending svc = []"
    by (auto simp: tracked_def)
  let ?d = "py_int ((clock (clock_reads svc) - tool_start_time svc) * 1000)"
  let ?done_pairs' = "done_pairs @ [ToolStartEvent tool_id (fst (last (svc_tools_used svc))) input_data,
      ToolEndEvent tool_id (fst (last (svc_tools_used svc))) ?d]"
  have p': "paired ?done_pairs'"
    using pc by (rule paired_append)
  have l': "length ?done_pairs' = 2 * (Suc k - 1)"
    using len False by simp
  obtain svc1 where s1: "svc_on_tool_use clock n i svc = Inr svc1"
    and t1: "tool_events (run_pending svc1) =
        ?done_pairs' @ [ToolStartEvent (next_tool_id (stream svc)) n i]"
    and c1: "current_tool_id (run_pending svc1) = Some (next_tool_id (stream svc))"
    and u1: "svc_tools_used (run_pending svc1) = svc_tools_used svc @ [(n, i)]"
    and q1: "pending (run_pending svc1) = []"
    using cur used ev pend
    by (simp add: svc_on_tool_use_def elapsed_ms_def start_new_tool_def create_task_def
          run_pending_def run_task_def emit_tool_start_def emit_tool_end_def emit_def
          tool_events_def tool_events_fold_subagent)
  have "\<exists>dp tid inp.
      current_tool_id (run_pending svc1) = Some tid
      \<and> svc_tools_used (run_pending svc1) \<noteq> []
      \<and> tool_events (run_pending svc1) =
          dp @ [ToolStartEvent tid (fst (last (svc_tools_used (run_pending svc1)))) inp]
      \<and> paired dp \<and> length dp = 2 * (Suc k - 1)"
    using t1 c1 u1 p' l'
    by (intro exI[of _ ?done_pairs'] exI[of _ "next_tool_id (stream svc)"] exI[of _ i]) simp
  then have "tracked (Suc k) (run_pending svc1)"
    using q1 by (simp add: tracked_def)
  with s1 show ?thesis
    by blast
qed

lemma tracked_complete:
  assumes "tracked k svc"
  shows "\<exists>svc2. svc_on_complete clock res svc = Inr svc2
           \<and> paired (tool_events (run_pending svc2))
           \<and> length (tool_events (run_pending svc2)) = 2 * k"
proof (cases "k = 0")
  case True
  with assms have "current_tool_id svc = None" "tool_events svc = []" "pending svc = []"
    by (simp_all add: tracked_def)
  with True show ?thesis
    by (simp add: svc_on_complete_def create_task_def run_pending_def run_task_def
          emit_complete_def emit_def tool_events_def Let_def)
next
  case False
  with assms obtain done_pairs tool_id input_data where
    cur: "current_tool_id svc = Some tool_id" and used: "svc_tools_used svc \<noteq> []"
    and ev: "tool_events svc =
        done_pairs @ [ToolStartEvent tool_id (fst (last (svc_tools_used svc))) input_data]"
    and pc: "paired done_pairs" and len: "length done_pairs = 2 * (k - 1)"
    and pend: "pending svc = []"
    by (auto simp: tracked_def)
  let ?d = "py_int ((clock (clock_reads svc) - tool_start_time svc) * 1000)"
  let ?all = "done_pairs @ [ToolStartEvent tool_id (fst (last (svc_tools_used svc))) input_data,
      ToolEndEvent tool_id (fst (last (svc_tools_used svc))) ?d]"
  have p': "paired ?all"
    using pc by (rule paired_append)
  have l': "length ?all = 2 * k"
    using len False by simp
  obtain svc2 where s2: "svc_on_complete clock res svc = Inr svc2"
    and t2: "tool_events (run_pending svc2) = ?all"
    using cur used ev pend
    by (simp add: svc_on_complete_def elapsed_ms_def create_task_def run_pending_def
          run_task_def emit_tool_end_def emit_complete_def emit_def tool_events_def Let_def)
  from s2 t2 p' l' show ?thesis
    by simp
qed

lemma consume_in_turn:
  assumes step: "\<And>k svc n i. I k svc \<Longrightarrow>
      \<exists>svc1. svc_on_tool_use clock n i svc = Inr svc1 \<and> I (Suc k) (run_pending svc1)"
    and "raised r = None" and "serves clock (run_agent r)" and "I k (client r)"
  shows "\<exists>r'. consume True run_pending (in_turn uses @ rest) r
                = consume True run_pending rest r'
           \<and> raised r' = None \<and> serves clock (run_agent r')
           \<and> I (k + length uses) (client r')"
  using assms(2-)
proof (induction uses arbitrary: r k)
  case Nil
  then show ?case
    by (auto simp: in_turn_def)
next
  case (Cons use uses)
  obtain n i where use: "use = (n, i)"
    by (cases use)
  from step[OF Cons.prems(3)] obtain svc1 where
    cb: "svc_on_tool_use clock n i (client r) = Inr svc1"
    and tr: "I (Suc k) (run_pending svc1)"
    by blast
  let ?r1 = "r\<lparr>run_agent := (run_agent r)
      \<lparr>agent_tools_used := agent_tools_used (run_agent r) @ [(n, i)]\<rparr>,
      client := run_pending svc1\<rparr>"
  have first: "consume True run_pending (in_turn (use # uses) @ rest) r
      = consume True run_pending (in_turn uses @ rest) ?r1"
    using Cons.prems(1,2) cb
    by (simp add: in_turn_def use serves_def call_back_def Let_def)
  have "raised ?r1 = None" "serves clock (run_agent ?r1)" "I (Suc k) (client ?r1)"
    using Cons.prems(1,2) tr by (simp_all add: serves_def)
  from Cons.IH[OF this] obtain r' where
    "consume True run_pending (in_turn uses @ rest) ?r1 = consume True run_pending rest r'"
    "raised r' = None" "serves clock (run_agent r')"
    "I (Suc k + length uses) (client r')"
    by blast
  with first show ?case
    by (intro exI[of _ r']) simp
qed

text \<open>
  With a turn of the event loop after every tool use, \<open>n\<close> tool uses and the completion
  give \<open>n\<close> \<open>ToolStart\<close> and \<open>n\<close> \<open>ToolEnd\<close> events, each \<open>ToolEnd\<close> right after the
  \<open>ToolStart\<close> of the same id and tool.
\<close>

lemma tool_lifecycle_in_turn:
  "paired (tool_events (run_pending (service_after
      (svc_investigate cfg new_service (service_agent cfg clock m) q
         (in_turn uses @ [Message (ResultMessage None d t)])))))
   \<and> length (tool_events (run_pending (service_after
      (svc_investigate cfg new_service (service_agent cfg clock m) q
         (in_turn uses @ [Message (ResultMessage None d t)]))))) = 2 * length uses"
proof -
  let ?agent = "service_agent cfg clock m"
  let ?r0 = "\<lparr>run_agent = snd (build_options cfg (?agent\<lparr>agent_tools_used := []\<rparr>)),
              full_response = [], client = new_service, yielded = [], raised = None\<rparr>"
  have "raised ?r0 = None" "serves clock (run_agent ?r0)" "tracked 0 (client ?r0)"
    by (simp_all add: serves_def build_options_def service_agent_def new_agent_def
          tracked_def new_service_def tool_events_def)
  from consume_in_turn[of tracked clock, OF tracked_tool_use this,
      of uses "[Message (ResultMessage None d t)]"]
  obtain r' where
    run: "consume True run_pending (in_turn uses @ [Message (ResultMessage None d t)]) ?r0
        = consume True run_pending [Message (ResultMessage None d t)] r'"
    and ok: "raised r' = None" "serves clock (run_agent r')"
    and tr: "tracked (length uses) (client r')"
    by auto
  let ?res = "\<lparr>res_text = full_response r', res_session_id = session_id (run_agent r'),
      res_duration_ms = d, res_num_turns = t,
      res_tools_used = agent_tools_used (run_agent r')\<rparr>"
  from tracked_complete[OF tr, of clock ?res] obtain svc2 where
    cb: "svc_on_complete clock ?res (client r') = Inr svc2"
    and fin: "paired (tool_events (run_pending svc2))"
      "length (tool_events (run_pending svc2)) = 2 * length uses"
    by blast
  have last_step: "consume True run_pending [Message (ResultMessage None d t)] r'
      = r'\<lparr>client := svc2\<rparr>"
    using ok cb
    by (simp add: capture_final_result_def serves_def call_back_def Let_def)
  have whole: "consume True run_pending (in_turn uses @ [Message (ResultMessage None d t)]) ?r0
      = r'\<lparr>client := svc2\<rparr>"
    unfolding run by (rule last_step)
  have "investigate cfg run_pending ?agent q True
      (in_turn uses @ [Message (ResultMessage None d t)]) new_service
      = ((q, fst (build_options cfg (?agent\<lparr>agent_tools_used := []\<rparr>))),
         r'\<lparr>client := svc2\<rparr>)"
    unfolding investigate_def Let_def case_prod_beta whole
    by simp
  then have "service_after (svc_investigate cfg new_service ?agent q
      (in_turn uses @ [Message (ResultMessage None d t)])) = svc2"
    using ok by (simp add: svc_investigate_def)
  with fin show ?thesis
    by simp
qed

lemma tool_lifecycle_in_turn_counts:
  "length (filter is_tool_start (events (stream (run_pending (service_after
      (svc_investigate cfg new_service (service_agent cfg clock m) q
         (in_turn uses @ [Message (ResultMessage None d t)]))))))) = length uses
   \<and> length (filter is_tool_end (events (stream (run_pending (service_after
      (svc_investigate cfg new_service (service_agent cfg clock m) q
         (in_turn uses @ [Message (ResultMessage None d t)]))))))) = length uses"
proof -
  let ?out = "run_pending (service_after
      (svc_investigate cfg new_service (service_agent cfg clock m) q
         (in_turn uses @ [Message (ResultMessage None d t)])))"
  have s: "filter is_tool_start (tool_events ?out) = filter is_tool_start (events (stream ?out))"
    and e: "filter is_tool_end (tool_events ?out) = filter is_tool_end (events (stream ?out))"
    by (auto simp: tool_events_def intro: filter_cong)
  from tool_lifecycle_in_turn[of cfg clock m q uses d t]
  have "paired (tool_events ?out)" "length (tool_events ?out) = 2 * length uses"
    by simp_all
  with paired_counts[of "tool_events ?out"] show ?thesis
    unfolding s e by simp
qed

text \<open>The durations, for a clock that does not run backwards.\<close>

fun timely :: "event \<Rightarrow> bool" where
  "timely (ToolEndEvent tool_id name duration) = (0 \<le> duration)"
| "timely e = True"

definition timed :: "(nat \<Rightarrow> real) \<Rightarrow> nat \<Rightarrow> service \<Rightarrow> bool" where
  "timed clock k svc \<longleftrightarrow>
     tracked k svc
     \<and> (current_tool_id svc \<noteq> None \<longrightarrow>
          (\<exists>j < clock_reads svc. tool_start_time svc = clock j))
     \<and> list_all timely (events (stream svc))"

lemma py_int_nonneg: "0 \<le> x \<Longrightarrow> 0 \<le> py_int x"
  by (simp add: py_int_def)

lemma timely_fold_subagent:
  "list_all timely (events (fold emit_subagent_start xs s)) = list_all timely (events s)"
  by (induction xs arbitrary: s) (auto simp: emit_subagent_start_def emit_def)

lemma elapsed_nonneg:
  assumes "mono clock" and "j < clock_reads svc" and "tool_start_time svc = clock j"
  shows "0 \<le> py_int ((clock (clock_reads svc) - tool_start_time svc) * 1000)"
proof -
  from assms(1,2) have "clock j \<le> clock (clock_reads svc)"
    by (simp add: monoD)
  with assms(3) show ?thesis
    by (intro py_int_nonneg) simp
qed

lemma timed_tool_use:
  assumes m: "mono clock" and t: "timed clock k svc"
  shows "\<exists>svc1. svc_on_tool_use clock n i svc = Inr svc1 \<and> timed clock (Suc k) (run_pending svc1)"
proof -
  from t have tr: "tracked k svc" and ev: "list_all timely (events (stream svc))"
    and st: "current_tool_id svc \<noteq> None \<longrightarrow>
      (\<exists>j < clock_reads svc. tool_start_time svc = clock j)"
    by (simp_all add: timed_def)
  from tracked_tool_use[OF tr, of clock n i] obtain svc1 where
    cb: "svc_on_tool_use clock n i svc = Inr svc1"
    and tr1: "tracked (Suc k) (run_pending svc1)"
    by blast
  from tr have pend: "pending svc = []"
    by (simp add: tracked_def)
  have rest: "(\<exists>j < clock_reads (run_pending svc1). tool_start_time (run_pending svc1) = clock j)
      \<and> list_all timely (events (stream (run_pending svc1)))"
  proof (cases "current_tool_id svc")
    case None
    with cb have "svc1 = start_new_tool clock n i svc"
      by (simp add: svc_on_tool_use_def)
    with pend ev have f: "clock_reads (run_pending svc1) = Suc (clock_reads svc)"
      "tool_start_time (run_pending svc1) = clock (clock_reads svc)"
      "list_all timely (events (stream (run_pending svc1)))"
      by (simp_all add: start_new_tool_def create_task_def run_pending_def run_task_def
            emit_tool_start_def emit_def timely_fold_subagent)
    show ?thesis
      unfolding f by (intro conjI exI[of _ "clock_reads svc"]) (simp_all add: f)
  next
    case (Some tool_id)
    with st obtain j where j: "j < clock_reads svc" "tool_start_time svc = clock j"
      by auto
    from elapsed_nonneg[OF m j]
    have d: "0 \<le> py_int ((clock (clock_reads svc) - tool_start_time svc) * 1000)" .
    from tr Some have used: "svc_tools_used svc \<noteq> []"
      by (cases "k = 0") (auto simp: tracked_def)
    from cb Some used have "svc1 = start_new_tool clock n i
        (create_task (EmitToolEnd tool_id (fst (last (svc_tools_used svc)))
            (py_int ((clock (clock_reads svc) - tool_start_time svc) * 1000)))
          (svc\<lparr>clock_reads := clock_reads svc + 1\<rparr>))"
      by (simp add: svc_on_tool_use_def elapsed_ms_def)
    with pend ev d have f: "clock_reads (run_pending svc1) = Suc (Suc (clock_reads svc))"
      "tool_start_time (run_pending svc1) = clock (Suc (clock_reads svc))"
      "list_all timely (events (stream (run_pending svc1)))"
      by (simp_all add: start_new_tool_def create_task_def run_pending_def run_task_def
            emit_tool_start_def emit_tool_end_def emit_def timely_fold_subagent)
    show ?thesis
      unfolding f by (intro conjI exI[of _ "Suc (clock_reads svc)"]) (simp_all add: f)
  qed
  from tr1 have "current_tool_id (run_pending svc1) \<noteq> None"
    by (auto simp: tracked_def)
  with cb tr1 rest show ?thesis
    by (auto simp: timed_def)
qed

lemma timed_complete:
  assumes m: "mono clock" and t: "timed clock k svc"
    and cb: "svc_on_complete clock res svc = Inr svc2"
  shows "list_all timely (events (stream (run_pending svc2)))"
proof -
  from t have tr: "tracked k svc" and ev: "list_all timely (events (stream svc))"
    and st: "current_tool_id svc \<noteq> None \<longrightarrow>
      (\<exists>j < clock_reads svc. tool_start_time svc = clock j)"
    by (simp_all add: timed_def)
  from tr have pend: "pending svc = []"
    by (simp add: tracked_def)
  show ?thesis
  proof (cases "current_tool_id svc")
    case None
    with cb pend ev show ?thesis
      by (auto simp: svc_on_complete_def create_task_def run_pending_def run_task_def
            emit_complete_def emit_def Let_def)
  next
    case (Some tool_id)
    with st obtain j where j: "j < clock_reads svc" "tool_start_time svc = clock j"
      by auto
    from elapsed_nonneg[OF m j]
    have d: "0 \<le> py_int ((clock (clock_reads svc) - tool_start_time svc) * 1000)" .
    with cb pend ev Some show ?thesis
      by (auto simp: svc_on_complete_def elapsed_ms_def create_task_def run_pending_def
            run_task_def emit_tool_end_def emit_complete_def emit_def Let_def)
  qed
qed

lemma tool_lifecycle_in_turn_durations:
  assumes "mono clock"
  shows "list_all timely (events (stream (run_pending (service_after
      (svc_investigate cfg new_service (service_agent cfg clock m) q
         (in_turn uses @ [Message (ResultMessage None d t)]))))))"
proof -
  let ?agent = "service_agent cfg clock m"
  let ?r0 = "\<lparr>run_agent = snd (build_options cfg (?agent\<lparr>agent_tools_used := []\<rparr>)),
              full_response = [], client = new_service, yielded = [], raised = None\<rparr>"
  have "raised ?r0 = None" "serves clock (run_agent ?r0)" "timed clock 0 (client ?r0)"
    by (simp_all add: serves_def build_options_def service_agent_def new_agent_def
          timed_def tracked_def new_service_def tool_events_def)
  from consume_in_turn[of "timed clock" clock, OF timed_tool_use[OF assms] this,
      of uses "[Message (ResultMessage None d t)]"]
  obtain r' where
    run: "consume True run_pending (in_turn uses @ [Message (ResultMessage None d t)]) ?r0
        = consume True run_pending [Message (ResultMessage None d t)] r'"
    and ok: "raised r' = None" "serves clock (run_agent r')"
    and tr: "timed clock (length uses) (client r')"
    by auto
  let ?res = "\<lparr>res_text = full_response r', res_session_id = session_id (run_agent r'),
      res_duration_ms = d, res_num_turns = t,
      res_tools_used = agent_tools_used (run_agent r')\<rparr>"
  obtain svc2 where cb: "svc_on_complete clock ?res (client r') = Inr svc2"
    by (simp add: svc_on_complete_def Let_def)
  from timed_complete[OF assms tr cb]
  have fin: "list_all timely (events (stream (run_pending svc2)))" .
  have last_step: "consume True run_pending [Message (ResultMessage None d t)] r'
      = r'\<lparr>client := svc2\<rparr>"
    using ok cb
    by (simp add: capture_final_result_def serves_def call_back_def Let_def)
  have whole: "consume True run_pending (in_turn uses @ [Message (ResultMessage None d t)]) ?r0
      = r'\<lparr>client := svc2\<rparr>"
    unfolding run by (rule last_step)
  have "investigate cfg run_pending ?agent q True
      (in_turn uses @ [Message (ResultMessage None d t)]) new_service
      = ((q, fst (build_options cfg (?agent\<lparr>agent_tools_used := []\<rparr>))),
         r'\<lparr>client := svc2\<rparr>)"
    unfolding investigate_def Let_def case_prod_beta whole
    by simp
  then have "service_after (svc_investigate cfg new_service ?agent q
      (in_turn uses @ [Message (ResultMessage None d t)])) = svc2"
    using ok by (simp add: svc_investigate_def)
  with fin show ?thesis
    by simp
qed

end
